theory Spec2Isabelle
  imports Main "HOL-Library.Word" "HOL-Library.AList"
begin

section \<open>The paging engine of vAttention: \<open>src/vattention/cudaInternal.h\<close>\<close>

text \<open>
  The header defines, over process-wide globals, device initialisation
  (\<open>do_cuda_default_init\<close>), growth of the physical page pool (\<open>reserve_cuda_pages\<close>),
  the mapper (\<open>map_cuda_pages\<close>) and teardown (\<open>do_cuda_kvcache_cleanup\<close>), and the
  two functions that choose between this backend and the managed one.
  The CUDA driver is external. It is modelled as a function that answers every driver
  call, given the history of the process so far; every theorem below holds for every
  such function. A call of \<open>exit(1)\<close> is the error value \<open>Exit\<close>, which carries the
  globals and the history at the moment the process stops.
\<close>

subsection \<open>Data\<close>

type_synonym u64 = "64 word"
type_synonym int32 = "32 word"  \<comment> \<open>C \<open>int\<close>; read with \<open>sint\<close>, converted with \<open>scast\<close>\<close>
type_synonym CUresult = "32 word"
type_synonym CUdeviceptr = u64
type_synonym CUPage = u64  \<comment> \<open>\<open>CUmemGenericAllocationHandle\<close>\<close>

definition CUDA_SUCCESS :: CUresult where
  "CUDA_SUCCESS = 0"

text \<open>
  The enumerations of the driver API that the header uses. Each lists the enumerator
  of value zero first, which is what \<open>memset(_, 0, _)\<close> leaves in a field.
\<close>

datatype CUmemAllocationType =
  CU_MEM_ALLOCATION_TYPE_INVALID | CU_MEM_ALLOCATION_TYPE_PINNED

datatype CUmemLocationType =
  CU_MEM_LOCATION_TYPE_INVALID | CU_MEM_LOCATION_TYPE_DEVICE

datatype CUmemAccess_flags =
  CU_MEM_ACCESS_FLAGS_PROT_NONE | CU_MEM_ACCESS_FLAGS_PROT_READ
  | CU_MEM_ACCESS_FLAGS_PROT_READWRITE

datatype CUmemAllocationGranularity_flags =
  CU_MEM_ALLOC_GRANULARITY_MINIMUM | CU_MEM_ALLOC_GRANULARITY_RECOMMENDED

text \<open>The fields of \<open>prop\<close> and \<open>accessDesc\<close> that the header writes or reads.\<close>

record CUmemAllocationProp =
  prop_type :: CUmemAllocationType
  prop_location_type :: CUmemLocationType
  prop_location_id :: int32

record CUmemAccessDesc =
  desc_location_type :: CUmemLocationType
  desc_location_id :: int32
  desc_flags :: CUmemAccess_flags

definition zero_prop :: CUmemAllocationProp where
  "zero_prop = \<lparr>prop_type = CU_MEM_ALLOCATION_TYPE_INVALID,
     prop_location_type = CU_MEM_LOCATION_TYPE_INVALID, prop_location_id = 0\<rparr>"

definition zero_accessDesc :: CUmemAccessDesc where
  "zero_accessDesc = \<lparr>desc_location_type = CU_MEM_LOCATION_TYPE_INVALID,
     desc_location_id = 0, desc_flags = CU_MEM_ACCESS_FLAGS_PROT_NONE\<rparr>"

text \<open>The driver calls of the header, with their arguments in the order of the API.\<close>

datatype call =
  CuInit int32
  | CuCtxGetCurrent
  | CuMemGetAllocationGranularity CUmemAllocationProp CUmemAllocationGranularity_flags
  | CuMemCreate u64 CUmemAllocationProp u64
  | CuMemMap CUdeviceptr u64 u64 CUPage u64
  | CuMemSetAccess CUdeviceptr u64 CUmemAccessDesc nat
  | CuMemUnmap CUdeviceptr u64
  | CuMemAddressFree CUdeviceptr u64
  | CuMemRelease CUPage
  | CuGetErrorString CUresult

text \<open>
  What the process writes: the diagnostics on \<open>std::cerr\<close>, one constructor for each
  message of the header with the values it prints, and the line of the \<open>Log\<close> object.
  \<open>cuGetErrorString\<close> turns a result code into the text of a message. Where the
  process exits right after the message, the message carries the code. The warning of a
  failed release is followed by more work: it is \<open>Warn_release\<close> when the driver has a
  text for the code, and \<open>Warn_release_no_text\<close>, the message cut before the text,
  when the driver leaves the text pointer null.
\<close>

datatype diag =
  Check_failed string CUresult
  | No_context
  | Granularity_mismatch u64 u64
  | Misaligned_offset u64 u64
  | Invalid_handle CUPage CUPage
  | Invalid_pointers
  | Descriptor_uninitialized
  | Map_failed_k CUresult CUdeviceptr
  | Map_failed_v CUresult CUdeviceptr
  | Warn_unmap
  | Warn_free_k
  | Warn_free_v
  | Warn_release nat CUresult
  | Warn_release_no_text nat

text \<open>
  The history of the process. A driver call is recorded with its answer: the result
  code and the value written through the output pointer (the context, the granularity
  or the new handle; unused by the other calls). \<open>Stderr\<close> is a message streamed to
  \<open>std::cerr\<close>. \<open>Cerr_failed\<close> marks the point where the stream enters its failure
  state, which is what streaming a null text pointer does to it; the stream shows
  nothing of what is streamed after that point.
\<close>

type_synonym reply = "CUresult \<times> u64"

datatype event =
  Backend call reply
  | Stderr diag
  | Log_reserving u64 u64
  | Cerr_failed

type_synonym backend = "event list \<Rightarrow> call \<Rightarrow> reply"

text \<open>
  The key of the mapping table is the tuple built by
  \<open>std::make_tuple(reqId, req_offset, layer_idx)\<close>, the value the pair
  \<open>(k_page, v_page)\<close>.
\<close>

type_synonym mapping_key = "int32 \<times> u64 \<times> int32"
type_synonym mapping = "mapping_key \<times> (CUPage \<times> CUPage)"

text \<open>
  The globals of the header. Their declarations are in \<open>utils.h\<close>, which this development
  does not cover. A tensor is represented by what the header reads of it, the
  address \<open>data_ptr()\<close>.

  Modelled from the spec: the container \<open>cuda_pagemap\<close>, whose declaration is missing.
  The spec describes an associative store from the composite key to the pair of pages,
  with defined equality and one pair for each key. It is an association list here:
  \<open>find\<close> is \<open>map_of\<close>, the assignment through \<open>operator[]\<close> is \<open>AList.update\<close>,
  \<open>clear\<close> leaves the empty list, and the range-based \<open>for\<close> visits the list in its
  order. No theorem below depends on which order that is.
\<close>

record state =
  ctx :: u64
  alloc_prop :: CUmemAllocationProp  \<comment> \<open>the global \<open>prop\<close>, a reserved word of Isabelle\<close>
  accessDesc :: CUmemAccessDesc
  page_size :: u64
  virt_buff_size :: u64
  cuda_pages :: "CUPage list"
  cuda_pagemap :: "mapping list"
  k_tensors :: "CUdeviceptr list"
  v_tensors :: "CUdeviceptr list"
  trace :: "event list"

text \<open>
  \<open>Exit\<close> is \<open>exit(1)\<close>. \<open>Undefined_behaviour\<close> stands for the executions to which C++
  gives no meaning: a remainder by zero, a vector read out of range, an overflow of a
  signed loop counter.
\<close>

datatype error = Exit state | Undefined_behaviour

subsection \<open>Talking to the driver\<close>

definition say :: "event \<Rightarrow> state \<Rightarrow> state" where
  "say e s = s\<lparr>trace := trace s @ [e]\<rparr>"

definition invoke :: "backend \<Rightarrow> call \<Rightarrow> state \<Rightarrow> reply \<times> state" where
  "invoke be c s = (let r = be (trace s) c in (r, say (Backend c r) s))"

text \<open>
  The macro \<open>CHECK_CUDA(x)\<close>: evaluate the call; when the result is not
  \<open>CUDA_SUCCESS\<close>, print the text of the expression and the code, and \<open>exit(1)\<close>.
  On success the model hands back the value written through the output pointer.
\<close>

definition CHECK_CUDA :: "backend \<Rightarrow> string \<Rightarrow> call \<Rightarrow> state \<Rightarrow> error + (u64 \<times> state)" where
  "CHECK_CUDA be x c s =
     (case invoke be c s of
        ((res, out), s1) \<Rightarrow>
          if res \<noteq> CUDA_SUCCESS then Inl (Exit (say (Stderr (Check_failed x res)) s1))
          else Inr (out, s1))"

subsection \<open>\<open>do_cuda_default_init\<close>\<close>

text \<open>
  The parameter \<open>page_size\<close> of the function hides the global of that name; the model
  calls the parameter \<open>pg_size\<close>. The function writes the globals \<open>ctx\<close>, \<open>prop\<close> and
  \<open>accessDesc\<close>.
\<close>

definition do_cuda_default_init :: "backend \<Rightarrow> int32 \<Rightarrow> u64 \<Rightarrow> state \<Rightarrow> error + (u64 \<times> state)" where
  "do_cuda_default_init be device pg_size s =
     (case CHECK_CUDA be ''cuInit(0)'' (CuInit 0) s of
        Inl e \<Rightarrow> Inl e
      | Inr (_, s1) \<Rightarrow>
     (case CHECK_CUDA be ''cuCtxGetCurrent(&ctx)'' CuCtxGetCurrent s1 of
        Inl e \<Rightarrow> Inl e
      | Inr (c, s2) \<Rightarrow>
     (let s3 = s2\<lparr>ctx := c\<rparr> in
      if ctx s3 = 0 then Inl (Exit (say (Stderr No_context) s3))
      else
       (let s4 = s3\<lparr>alloc_prop := zero_prop, accessDesc := zero_accessDesc\<rparr>;
            s5 = s4\<lparr>alloc_prop := (alloc_prop s4)\<lparr>prop_type := CU_MEM_ALLOCATION_TYPE_PINNED,
                                  prop_location_type := CU_MEM_LOCATION_TYPE_DEVICE,
                                  prop_location_id := device\<rparr>\<rparr>;
            s6 = s5\<lparr>accessDesc := (accessDesc s5)\<lparr>desc_location_type := CU_MEM_LOCATION_TYPE_DEVICE,
                                  desc_flags := CU_MEM_ACCESS_FLAGS_PROT_READWRITE,
                                  desc_location_id := device\<rparr>\<rparr>
        in
        (case CHECK_CUDA be
                ''cuMemGetAllocationGranularity(&phys_granularity, &prop, CU_MEM_ALLOC_GRANULARITY_MINIMUM)''
                (CuMemGetAllocationGranularity (alloc_prop s6) CU_MEM_ALLOC_GRANULARITY_MINIMUM) s6 of
           Inl e \<Rightarrow> Inl e
         | Inr (phys_granularity, s7) \<Rightarrow>
             if phys_granularity \<noteq> pg_size
             then Inl (Exit (say (Stderr (Granularity_mismatch pg_size phys_granularity)) s7))
             else Inr (phys_granularity, s7))))))"

text \<open>
  \<open>do_cuda_init\<close> chooses between two backends. \<open>is_uvm_backend\<close> and
  \<open>do_cuda_uvm_init\<close> are defined elsewhere and are parameters here.
\<close>

definition do_cuda_init ::
  "(u64 \<Rightarrow> bool) \<Rightarrow> (int32 \<Rightarrow> u64 \<Rightarrow> state \<Rightarrow> error + (u64 \<times> state)) \<Rightarrow>
   backend \<Rightarrow> int32 \<Rightarrow> u64 \<Rightarrow> state \<Rightarrow> error + (u64 \<times> state)" where
  "do_cuda_init is_uvm_backend do_cuda_uvm_init be device pg_size s =
     (if is_uvm_backend pg_size then do_cuda_uvm_init device pg_size s
      else do_cuda_default_init be device pg_size s)"

subsection \<open>\<open>map_cuda_pages\<close>\<close>

text \<open>
  The body runs under \<open>std::lock_guard\<close> on \<open>memory_mapping_mutex\<close>; this is the
  function one thread executes while it holds the lock. \<open>page_size\<close> is the global.
  Addresses are \<open>unsigned long long\<close>, so \<open>kcache_ptr + req_offset\<close> wraps.
\<close>

definition map_cuda_pages ::
  "backend \<Rightarrow> int32 \<Rightarrow> int32 \<Rightarrow> u64 \<Rightarrow> CUdeviceptr \<Rightarrow> CUdeviceptr \<Rightarrow> CUPage \<Rightarrow> CUPage \<Rightarrow>
   state \<Rightarrow> error + state" where
  "map_cuda_pages be reqId layer_idx req_offset kcache_ptr vcache_ptr k_page v_page s =
     (if page_size s = 0 then Inl Undefined_behaviour
      else if req_offset mod page_size s \<noteq> 0
        then Inl (Exit (say (Stderr (Misaligned_offset req_offset (page_size s))) s))
      else if k_page = 0 \<or> v_page = 0
        then Inl (Exit (say (Stderr (Invalid_handle k_page v_page)) s))
      else if kcache_ptr = 0 \<or> vcache_ptr = 0
        then Inl (Exit (say (Stderr Invalid_pointers) s))
      else if desc_location_type (accessDesc s) \<noteq> CU_MEM_LOCATION_TYPE_DEVICE
              \<or> desc_flags (accessDesc s) \<noteq> CU_MEM_ACCESS_FLAGS_PROT_READWRITE
        then Inl (Exit (say (Stderr Descriptor_uninitialized) s))
      else
       (let mapping_key = (reqId, req_offset, layer_idx) in
        if map_of (cuda_pagemap s) mapping_key \<noteq> None then Inr s
        else
         (case invoke be (CuMemMap (kcache_ptr + req_offset) (page_size s) 0 k_page 0) s of
            ((map_result_k, _), s1) \<Rightarrow>
          if map_result_k \<noteq> CUDA_SUCCESS
            then Inl (Exit (say (Stderr (Map_failed_k map_result_k (kcache_ptr + req_offset))) s1))
          else
         (case invoke be (CuMemMap (vcache_ptr + req_offset) (page_size s1) 0 v_page 0) s1 of
            ((map_result_v, _), s2) \<Rightarrow>
          if map_result_v \<noteq> CUDA_SUCCESS
            then Inl (Exit (say (Stderr (Map_failed_v map_result_v (vcache_ptr + req_offset))) s2))
          else
         (case CHECK_CUDA be ''cuMemSetAccess(kcache_ptr + req_offset, page_size, &accessDesc, 1)''
                 (CuMemSetAccess (kcache_ptr + req_offset) (page_size s2) (accessDesc s2) 1) s2 of
            Inl e \<Rightarrow> Inl e
          | Inr (_, s3) \<Rightarrow>
         (case CHECK_CUDA be ''cuMemSetAccess(vcache_ptr + req_offset, page_size, &accessDesc, 1)''
                 (CuMemSetAccess (vcache_ptr + req_offset) (page_size s3) (accessDesc s3) 1) s3 of
            Inl e \<Rightarrow> Inl e
          | Inr (_, s4) \<Rightarrow>
              Inr (s4\<lparr>cuda_pagemap :=
                        AList.update (reqId, req_offset, layer_idx) (k_page, v_page)
                          (cuda_pagemap s4)\<rparr>)))))))"

subsection \<open>\<open>reserve_cuda_pages\<close>\<close>

text \<open>
  The \<open>while\<close> loop: as long as the pool is smaller than the target, create one handle
  of \<open>pg_size\<close> bytes with the session's allocation properties and append it.
  \<open>cuda_pages.size()\<close> is compared with the target as an unsigned 64-bit number.
\<close>

function reserve_loop :: "backend \<Rightarrow> u64 \<Rightarrow> u64 \<Rightarrow> state \<Rightarrow> error + state" where
  "reserve_loop be pg_size num_phys_blocks s =
     (if length (cuda_pages s) < unat num_phys_blocks then
        (case CHECK_CUDA be ''cuMemCreate(&cuda_page, page_size, &prop, 0)''
                (CuMemCreate pg_size (alloc_prop s) 0) s of
           Inl e \<Rightarrow> Inl e
         | Inr (cuda_page, s1) \<Rightarrow>
             reserve_loop be pg_size num_phys_blocks
               (s1\<lparr>cuda_pages := cuda_pages s1 @ [cuda_page]\<rparr>))
      else Inr s)"
  by pat_completeness auto
termination
  by (relation "measure (\<lambda>(be, pg_size, num_phys_blocks, s).
                   unat num_phys_blocks - length (cuda_pages s))")
     (auto simp: CHECK_CUDA_def invoke_def say_def Let_def split: if_splits prod.splits)

declare reserve_loop.simps [simp del]

text \<open>
  The sizing function \<open>get_num_phys_blocks\<close> is external policy and a parameter.
  The result is \<open>cuda_pages.size()\<close> as a \<open>u64\<close>.
\<close>

definition reserve_cuda_pages ::
  "backend \<Rightarrow> (u64 \<Rightarrow> u64 \<Rightarrow> u64 \<Rightarrow> u64) \<Rightarrow> u64 \<Rightarrow> u64 \<Rightarrow> u64 \<Rightarrow> state \<Rightarrow> error + (u64 \<times> state)" where
  "reserve_cuda_pages be get_num_phys_blocks num_layers free_memory pg_size s =
     (let num_phys_blocks = get_num_phys_blocks num_layers free_memory pg_size;
          s1 = say (Log_reserving num_phys_blocks pg_size) s
      in case reserve_loop be pg_size num_phys_blocks s1 of
           Inl e \<Rightarrow> Inl e
         | Inr s2 \<Rightarrow> Inr (of_nat (length (cuda_pages s2)), s2))"

text \<open>
  \<open>reserve_gpu_pages\<close> chooses as \<open>do_cuda_init\<close> does; \<open>reserve_uvm_pages\<close> is defined
  elsewhere and is a parameter.
\<close>

definition reserve_gpu_pages ::
  "(u64 \<Rightarrow> bool) \<Rightarrow> (u64 \<Rightarrow> u64 \<Rightarrow> u64 \<Rightarrow> state \<Rightarrow> error + (u64 \<times> state)) \<Rightarrow>
   backend \<Rightarrow> (u64 \<Rightarrow> u64 \<Rightarrow> u64 \<Rightarrow> u64) \<Rightarrow> u64 \<Rightarrow> u64 \<Rightarrow> u64 \<Rightarrow> state \<Rightarrow>
   error + (u64 \<times> state)" where
  "reserve_gpu_pages is_uvm_backend reserve_uvm_pages be get_num_phys_blocks num_layers free_memory pg_size s =
     (if is_uvm_backend pg_size then reserve_uvm_pages num_layers free_memory pg_size s
      else reserve_cuda_pages be get_num_phys_blocks num_layers free_memory pg_size s)"

subsection \<open>\<open>do_cuda_kvcache_cleanup\<close>\<close>

text \<open>
  The body of the first loop, for one entry of the table. In
  \<open>layer_idx < k_tensors.size()\<close> the \<open>int\<close> is converted to the 64-bit \<open>size_t\<close>,
  so a negative index compares as a huge one. \<open>v_tensors[layer_idx]\<close> is read under
  the guard on \<open>k_tensors\<close> only.
\<close>

definition unmap_mapping :: "backend \<Rightarrow> mapping \<Rightarrow> state \<Rightarrow> error + state" where
  "unmap_mapping be m s =
     (case m of ((reqId, req_offset, layer_idx), (k_page, v_page)) \<Rightarrow>
        let idx = unat (scast layer_idx :: u64) in
        if idx < length (k_tensors s) then
          (if \<not> idx < length (v_tensors s) then Inl Undefined_behaviour
           else
            (let kcache_ptr = k_tensors s ! idx; vcache_ptr = v_tensors s ! idx in
             if kcache_ptr \<noteq> 0 \<and> vcache_ptr \<noteq> 0 then
               (case invoke be (CuMemUnmap (kcache_ptr + req_offset) (page_size s)) s of
                  ((result_k, _), s1) \<Rightarrow>
                (case invoke be (CuMemUnmap (vcache_ptr + req_offset) (page_size s1)) s1 of
                  ((result_v, _), s2) \<Rightarrow>
                    if result_k \<noteq> CUDA_SUCCESS \<or> result_v \<noteq> CUDA_SUCCESS
                    then Inr (say (Stderr Warn_unmap) s2)
                    else Inr s2))
             else Inr s))
        else Inr s)"

fun unmap_sweep :: "backend \<Rightarrow> mapping list \<Rightarrow> state \<Rightarrow> error + state" where
  "unmap_sweep be [] s = Inr s"
| "unmap_sweep be (m # ms) s =
     (case unmap_mapping be m s of
        Inl e \<Rightarrow> Inl e
      | Inr s1 \<Rightarrow> unmap_sweep be ms s1)"

text \<open>
  The body of the second loop, for layer \<open>i\<close>; the caller has checked
  \<open>i < k_tensors.size()\<close>.
\<close>

definition free_layer :: "backend \<Rightarrow> nat \<Rightarrow> state \<Rightarrow> error + state" where
  "free_layer be i s =
     (if \<not> i < length (v_tensors s) then Inl Undefined_behaviour
      else
       (let k_ptr = k_tensors s ! i; v_ptr = v_tensors s ! i;
            s2 = (if k_ptr \<noteq> 0 then
                    (case invoke be (CuMemAddressFree k_ptr (virt_buff_size s)) s of
                       ((result, _), s1) \<Rightarrow>
                         if result \<noteq> CUDA_SUCCESS then say (Stderr Warn_free_k) s1 else s1)
                  else s);
            s4 = (if v_ptr \<noteq> 0 then
                    (case invoke be (CuMemAddressFree v_ptr (virt_buff_size s2)) s2 of
                       ((result, _), s3) \<Rightarrow>
                         if result \<noteq> CUDA_SUCCESS then say (Stderr Warn_free_v) s3 else s3)
                  else s2)
        in Inr s4))"

text \<open>
  The counter of the second and third loop is an \<open>int\<close>: \<open>i++\<close> at \<open>INT_MAX\<close> has no
  defined meaning.
\<close>

definition INT_MAX :: nat where
  "INT_MAX = 2147483647"

function free_loop :: "backend \<Rightarrow> nat \<Rightarrow> state \<Rightarrow> error + state" where
  "free_loop be i s =
     (if i < length (k_tensors s) then
        (case free_layer be i s of
           Inl e \<Rightarrow> Inl e
         | Inr s1 \<Rightarrow>
             if i = INT_MAX then Inl Undefined_behaviour
             else free_loop be (Suc i) s1)
      else Inr s)"
  by pat_completeness auto
termination
  by (relation "measure (\<lambda>(be, i, s). length (k_tensors s) - i)")
     (auto simp: free_layer_def invoke_def say_def Let_def split: if_splits prod.splits)

declare free_loop.simps [simp del]

text \<open>
  The body of the third loop, for page \<open>i\<close>. On a failure \<open>errStr\<close> starts as
  \<open>NULL\<close> and \<open>cuGetErrorString\<close> writes it; the driver is asked for the value the
  pointer holds after the call, a lookup that is not entered in the history. The
  warning streams the index and then \<open>errStr\<close>: with a null \<open>errStr\<close> the message
  stops before the text and the stream fails.
\<close>

definition release_page :: "backend \<Rightarrow> nat \<Rightarrow> state \<Rightarrow> state" where
  "release_page be i s =
     (case invoke be (CuMemRelease (cuda_pages s ! i)) s of
        ((result, _), s1) \<Rightarrow>
          if result \<noteq> CUDA_SUCCESS then
            (let errStr = snd (be (trace s1) (CuGetErrorString result)) in
             if errStr = 0 then say Cerr_failed (say (Stderr (Warn_release_no_text i)) s1)
             else say (Stderr (Warn_release i result)) s1)
          else s1)"

function release_loop :: "backend \<Rightarrow> nat \<Rightarrow> state \<Rightarrow> error + state" where
  "release_loop be i s =
     (if i < length (cuda_pages s) then
        (let s1 = release_page be i s in
         if i = INT_MAX then Inl Undefined_behaviour
         else release_loop be (Suc i) s1)
      else Inr s)"
  by pat_completeness auto
termination
  by (relation "measure (\<lambda>(be, i, s). length (cuda_pages s) - i)")
     (auto simp: release_page_def invoke_def say_def Let_def split: if_splits prod.splits)

declare release_loop.simps [simp del]

definition do_cuda_kvcache_cleanup :: "backend \<Rightarrow> state \<Rightarrow> error + state" where
  "do_cuda_kvcache_cleanup be s =
     (case unmap_sweep be (cuda_pagemap s) s of
        Inl e \<Rightarrow> Inl e
      | Inr s1 \<Rightarrow>
         (let s2 = s1\<lparr>cuda_pagemap := []\<rparr> in
          case free_loop be 0 s2 of
            Inl e \<Rightarrow> Inl e
          | Inr s3 \<Rightarrow> release_loop be 0 s3))"

section \<open>Reading the history\<close>

text \<open>The driver calls of a history, in order, without their answers and without the messages.\<close>

fun calls_of :: "event list \<Rightarrow> call list" where
  "calls_of [] = []"
| "calls_of (Backend c r # es) = c # calls_of es"
| "calls_of (e # es) = calls_of es"

text \<open>A driver call that did not answer \<open>CUDA_SUCCESS\<close>.\<close>

fun failed :: "event \<Rightarrow> bool" where
  "failed (Backend c r) = (fst r \<noteq> CUDA_SUCCESS)"
| "failed e = False"

text \<open>The handles that the calls of \<open>cuMemCreate\<close> in a history wrote.\<close>

fun handles_of :: "event list \<Rightarrow> CUPage list" where
  "handles_of [] = []"
| "handles_of (Backend (CuMemCreate n p f) r # es) = snd r # handles_of es"
| "handles_of (e # es) = handles_of es"

text \<open>
  A failed call of teardown is followed by its warning: a failed unmap by
  \<open>Warn_unmap\<close>, directly or after the second unmap of the same entry; a failed free
  directly by the warning of a free; a failed release directly by \<open>Warn_release\<close>
  with the code of the failure.
\<close>

definition next_is :: "(event \<Rightarrow> bool) \<Rightarrow> event list \<Rightarrow> bool" where
  "next_is P es = (case es of [] \<Rightarrow> False | e # es' \<Rightarrow> P e)"

fun is_unmap :: "event \<Rightarrow> bool" where
  "is_unmap (Backend (CuMemUnmap a n) r) = True"
| "is_unmap e = False"

fun is_release_warning :: "CUresult \<Rightarrow> event \<Rightarrow> bool" where
  "is_release_warning c (Stderr (Warn_release j c')) = (c' = c)"
| "is_release_warning c e = False"

fun warned :: "event \<Rightarrow> event list \<Rightarrow> bool" where
  "warned (Backend (CuMemUnmap a n) r) es =
     (next_is (\<lambda>x. x = Stderr Warn_unmap) es \<or>
      (next_is is_unmap es \<and> next_is (\<lambda>x. x = Stderr Warn_unmap) (tl es)))"
| "warned (Backend (CuMemAddressFree a n) r) es =
     next_is (\<lambda>x. x = Stderr Warn_free_k \<or> x = Stderr Warn_free_v) es"
| "warned (Backend (CuMemRelease h) r) es = next_is (is_release_warning (fst r)) es"
| "warned e es = False"

fun every_failure_logged :: "event list \<Rightarrow> bool" where
  "every_failure_logged [] = True"
| "every_failure_logged (e # es) = ((\<not> failed e \<or> warned e es) \<and> every_failure_logged es)"

text \<open>The driver has a text for every result code.\<close>

definition has_texts :: "backend \<Rightarrow> bool" where
  "has_texts be \<longleftrightarrow> (\<forall>tr r. snd (be tr (CuGetErrorString r)) \<noteq> 0)"

section \<open>What the specification names\<close>

text \<open>
  The preconditions of \<open>map\<close>, in the words of the specification: the offset is a
  multiple of the page size, both page handles are non-null, both base addresses are
  non-null, and the access descriptor is device-local with read-write permission.
\<close>

definition map_preconditions :: "state \<Rightarrow> u64 \<Rightarrow> CUdeviceptr \<Rightarrow> CUdeviceptr \<Rightarrow> CUPage \<Rightarrow> CUPage \<Rightarrow> bool" where
  "map_preconditions s req_offset kcache_ptr vcache_ptr k_page v_page \<longleftrightarrow>
     req_offset mod page_size s = 0 \<and> k_page \<noteq> 0 \<and> v_page \<noteq> 0 \<and>
     kcache_ptr \<noteq> 0 \<and> vcache_ptr \<noteq> 0 \<and>
     desc_location_type (accessDesc s) = CU_MEM_LOCATION_TYPE_DEVICE \<and>
     desc_flags (accessDesc s) = CU_MEM_ACCESS_FLAGS_PROT_READWRITE"

text \<open>
  The effect of \<open>map\<close> on the first occurrence of a key: bind the key page at
  \<open>kBase + offset\<close> and the value page at \<open>vBase + offset\<close>, each for \<open>page_size\<close>
  bytes, then apply the access descriptor of the session to both ranges.
\<close>

definition map_calls :: "state \<Rightarrow> u64 \<Rightarrow> CUdeviceptr \<Rightarrow> CUdeviceptr \<Rightarrow> CUPage \<Rightarrow> CUPage \<Rightarrow> call list" where
  "map_calls s req_offset kcache_ptr vcache_ptr k_page v_page =
     [CuMemMap (kcache_ptr + req_offset) (page_size s) 0 k_page 0,
      CuMemMap (vcache_ptr + req_offset) (page_size s) 0 v_page 0,
      CuMemSetAccess (kcache_ptr + req_offset) (page_size s) (accessDesc s) 1,
      CuMemSetAccess (vcache_ptr + req_offset) (page_size s) (accessDesc s) 1]"

text \<open>
  Calls of \<open>map\<close> taken one after the other, as the lock on the table admits them:
  the arguments of a call, the table entry and the driver calls it stands for, and the
  run of a list of calls, which stops at the first one that does not return.
\<close>

record map_call =
  arg_reqId :: int32
  arg_layer_idx :: int32
  arg_req_offset :: u64
  arg_kcache_ptr :: CUdeviceptr
  arg_vcache_ptr :: CUdeviceptr
  arg_k_page :: CUPage
  arg_v_page :: CUPage

definition key_of :: "map_call \<Rightarrow> mapping_key" where
  "key_of c = (arg_reqId c, arg_req_offset c, arg_layer_idx c)"

definition entry_of :: "map_call \<Rightarrow> mapping" where
  "entry_of c = (key_of c, (arg_k_page c, arg_v_page c))"

definition calls_for :: "state \<Rightarrow> map_call \<Rightarrow> call list" where
  "calls_for s c = map_calls s (arg_req_offset c) (arg_kcache_ptr c) (arg_vcache_ptr c)
                     (arg_k_page c) (arg_v_page c)"

fun map_in_turn :: "backend \<Rightarrow> map_call list \<Rightarrow> state \<Rightarrow> error + state" where
  "map_in_turn be [] s = Inr s"
| "map_in_turn be (c # cs) s =
     (case map_cuda_pages be (arg_reqId c) (arg_layer_idx c) (arg_req_offset c)
             (arg_kcache_ptr c) (arg_vcache_ptr c) (arg_k_page c) (arg_v_page c) s of
        Inl e \<Rightarrow> Inl e
      | Inr s1 \<Rightarrow> map_in_turn be cs s1)"

text \<open>The descriptors that initialisation builds for a device.\<close>

definition device_prop :: "int32 \<Rightarrow> CUmemAllocationProp" where
  "device_prop device = \<lparr>prop_type = CU_MEM_ALLOCATION_TYPE_PINNED,
     prop_location_type = CU_MEM_LOCATION_TYPE_DEVICE, prop_location_id = device\<rparr>"

definition device_accessDesc :: "int32 \<Rightarrow> CUmemAccessDesc" where
  "device_accessDesc device = \<lparr>desc_location_type = CU_MEM_LOCATION_TYPE_DEVICE,
     desc_location_id = device, desc_flags = CU_MEM_ACCESS_FLAGS_PROT_READWRITE\<rparr>"

text \<open>
  The three phases of teardown, item by item. An entry resolves
  when its layer index denotes a layer tensor and the key and the value range of that
  layer are not null. Phase one unmaps, for an entry that resolves, the key and the
  value sub-range at the offset of the entry. Phase two frees, for a layer, the key and
  the value range that are not null. Phase three releases every handle of the pool.
\<close>

definition resolves :: "state \<Rightarrow> mapping \<Rightarrow> bool" where
  "resolves s m =
     (case m of ((reqId, req_offset, layer_idx), pages) \<Rightarrow>
        0 \<le> sint layer_idx \<and> nat (sint layer_idx) < length (k_tensors s) \<and>
        k_tensors s ! nat (sint layer_idx) \<noteq> 0 \<and> v_tensors s ! nat (sint layer_idx) \<noteq> 0)"

definition entry_unmap_calls :: "state \<Rightarrow> mapping \<Rightarrow> call list" where
  "entry_unmap_calls s m =
     (case m of ((reqId, req_offset, layer_idx), pages) \<Rightarrow>
        [CuMemUnmap (k_tensors s ! nat (sint layer_idx) + req_offset) (page_size s),
         CuMemUnmap (v_tensors s ! nat (sint layer_idx) + req_offset) (page_size s)])"

definition free_calls :: "state \<Rightarrow> nat \<Rightarrow> call list" where
  "free_calls s i =
     (if k_tensors s ! i \<noteq> 0 then [CuMemAddressFree (k_tensors s ! i) (virt_buff_size s)] else []) @
     (if v_tensors s ! i \<noteq> 0 then [CuMemAddressFree (v_tensors s ! i) (virt_buff_size s)] else [])"

definition release_calls :: "state \<Rightarrow> call list" where
  "release_calls s = map CuMemRelease (cuda_pages s)"


text \<open>
  The claims as they are worded speak of every recorded entry. In their words: among
  the driver calls \<open>cs\<close> are the unmap of the key sub-range and the unmap of the value
  sub-range of the entry, at the offset of the entry in the ranges of its layer.
\<close>

definition unmap_attempted :: "call list \<Rightarrow> state \<Rightarrow> mapping \<Rightarrow> bool" where
  "unmap_attempted cs s m =
     (case m of ((reqId, req_offset, layer_idx), pages) \<Rightarrow>
        0 \<le> sint layer_idx \<and> nat (sint layer_idx) < length (k_tensors s) \<and>
        nat (sint layer_idx) < length (v_tensors s) \<and>
        CuMemUnmap (k_tensors s ! nat (sint layer_idx) + req_offset) (page_size s) \<in> set cs \<and>
        CuMemUnmap (v_tensors s ! nat (sint layer_idx) + req_offset) (page_size s) \<in> set cs)"

text \<open>The events that teardown adds to the history.\<close>

definition teardown_history :: "backend \<Rightarrow> state \<Rightarrow> event list" where
  "teardown_history be s =
     (case do_cuda_kvcache_cleanup be s of
        Inl e \<Rightarrow> []
      | Inr s' \<Rightarrow> drop (length (trace s)) (trace s'))"

text \<open>
  The entries that the first phase passes over: the layer index is not less than the
  number of layer tensors, or the key or the value base address of the layer is null.
\<close>

definition skipped :: "state \<Rightarrow> mapping \<Rightarrow> bool" where
  "skipped s m =
     (case m of ((reqId, req_offset, layer_idx), pages) \<Rightarrow>
        int (length (k_tensors s)) \<le> sint layer_idx \<or>
        (0 \<le> sint layer_idx \<and> nat (sint layer_idx) < length (k_tensors s) \<and>
         (k_tensors s ! nat (sint layer_idx) = 0 \<or> v_tensors s ! nat (sint layer_idx) = 0)))"

text \<open>
  What teardown relies on: every layer has a value tensor as it has a key tensor, and
  the layers and the pool can be counted by an \<open>int\<close>.
\<close>

definition session_ok :: "state \<Rightarrow> bool" where
  "session_ok s \<longleftrightarrow>
     length (k_tensors s) \<le> length (v_tensors s) \<and>
     length (k_tensors s) \<le> INT_MAX \<and> length (cuda_pages s) \<le> INT_MAX"

section \<open>A session to run the operations on\<close>

text \<open>
  The scenario of the specification: pages of 2 MiB, two layers with non-null key and
  value ranges, and a driver that answers every call with success, reports a
  granularity of 2 MiB and hands out fresh handles.
\<close>

definition driver_ok :: backend where
  "driver_ok tr c =
     (case c of
        CuCtxGetCurrent \<Rightarrow> (CUDA_SUCCESS, 1)
      | CuMemGetAllocationGranularity p f \<Rightarrow> (CUDA_SUCCESS, 2097152)
      | CuMemCreate n p f \<Rightarrow> (CUDA_SUCCESS, 200 + of_nat (length tr))
      | _ \<Rightarrow> (CUDA_SUCCESS, 0))"

definition session_blank :: state where
  "session_blank = \<lparr>ctx = 0, alloc_prop = zero_prop, accessDesc = zero_accessDesc,
     page_size = 2097152, virt_buff_size = 8388608, cuda_pages = [], cuda_pagemap = [],
     k_tensors = [1073741824, 2147483648], v_tensors = [3221225472, 4294967296], trace = []\<rparr>"

definition session_ready :: state where
  "session_ready = session_blank\<lparr>ctx := 1, alloc_prop := device_prop 0,
     accessDesc := device_accessDesc 0, cuda_pages := [101, 102]\<rparr>"

definition session_mapped :: state where
  "session_mapped = session_ready\<lparr>cuda_pagemap := [((7, 0, 0), (101, 102))],
     trace := [Backend (CuMemMap 1073741824 2097152 0 101 0) (CUDA_SUCCESS, 0),
               Backend (CuMemMap 3221225472 2097152 0 102 0) (CUDA_SUCCESS, 0),
               Backend (CuMemSetAccess 1073741824 2097152 (device_accessDesc 0) 1) (CUDA_SUCCESS, 0),
               Backend (CuMemSetAccess 3221225472 2097152 (device_accessDesc 0) 1) (CUDA_SUCCESS, 0)]\<rparr>"

text \<open>
  A driver that refuses every unmap, free and release and has a text for every code,
  one that refuses every release with a code it has no text for, and a session whose
  table holds, beside the entry of layer 0, an entry for a layer that has no tensor.
\<close>

definition driver_failing :: backend where
  "driver_failing tr c =
     (case c of
        CuMemUnmap a n \<Rightarrow> (1, 0)
      | CuMemAddressFree a n \<Rightarrow> (1, 0)
      | CuMemRelease h \<Rightarrow> (1, 0)
      | CuGetErrorString r \<Rightarrow> (CUDA_SUCCESS, 4096)
      | _ \<Rightarrow> driver_ok tr c)"

definition driver_untexted :: backend where
  "driver_untexted tr c =
     (case c of
        CuMemRelease h \<Rightarrow> (12345, 0)
      | CuGetErrorString r \<Rightarrow> (1, 0)
      | _ \<Rightarrow> driver_ok tr c)"

definition session_stale :: state where
  "session_stale = session_mapped\<lparr>cuda_pagemap := [((7, 0, 0), (101, 102)), ((8, 0, 5), (102, 101))]\<rparr>"

text \<open>
  Sessions in which a layer has lost a range by the time of teardown: the key range of
  layer 0 is null while the table holds an entry of layer 0; and the value range of
  layer 1 is null while the table holds an entry of layer 0 and one of layer 1.
\<close>

definition session_null_key :: state where
  "session_null_key = session_mapped\<lparr>k_tensors := [0, 2147483648]\<rparr>"

definition session_null_value :: state where
  "session_null_value = session_mapped\<lparr>v_tensors := [3221225472, 0],
     cuda_pagemap := [((7, 0, 0), (101, 102)), ((7, 0, 1), (102, 101))]\<rparr>"

lemmas scenario_defs = session_blank_def session_ready_def session_mapped_def driver_ok_def
  device_prop_def device_accessDesc_def zero_prop_def zero_accessDesc_def CUDA_SUCCESS_def

lemmas scenario_defs2 = scenario_defs session_stale_def driver_failing_def INT_MAX_def
  driver_untexted_def session_null_key_def session_null_value_def


section \<open>Properties\<close>

subsection \<open>Histories\<close>

lemma calls_of_append [simp]: "calls_of (xs @ ys) = calls_of xs @ calls_of ys"
  by (induction xs rule: calls_of.induct) simp_all

lemma handles_of_append [simp]: "handles_of (xs @ ys) = handles_of xs @ handles_of ys"
  by (induction xs rule: handles_of.induct) simp_all

lemma handles_of_creates:
  "calls_of es = replicate n (CuMemCreate a p f) \<Longrightarrow> length (handles_of es) = length (calls_of es)"
proof (induction es arbitrary: n rule: handles_of.induct)
  case 1
  then show ?case by simp
next
  case (2 a' p' f' r es)
  then show ?case by (cases n) auto
qed (auto simp: Cons_replicate_eq)

subsection \<open>The mapper\<close>

lemma map_fresh_success:
  assumes "map_of (cuda_pagemap s) (reqId, req_offset, layer_idx) = None"
    and "map_cuda_pages be reqId layer_idx req_offset kcache_ptr vcache_ptr k_page v_page s = Inr s1"
  shows "\<exists>o1 o2 o3 o4.
           s1 = s\<lparr>trace := trace s @
                   [Backend (CuMemMap (kcache_ptr + req_offset) (page_size s) 0 k_page 0) (CUDA_SUCCESS, o1),
                    Backend (CuMemMap (vcache_ptr + req_offset) (page_size s) 0 v_page 0) (CUDA_SUCCESS, o2),
                    Backend (CuMemSetAccess (kcache_ptr + req_offset) (page_size s) (accessDesc s) 1) (CUDA_SUCCESS, o3),
                    Backend (CuMemSetAccess (vcache_ptr + req_offset) (page_size s) (accessDesc s) 1) (CUDA_SUCCESS, o4)],
                  cuda_pagemap := AList.update (reqId, req_offset, layer_idx) (k_page, v_page) (cuda_pagemap s)\<rparr>"
  using assms
  by (auto simp: map_cuda_pages_def CHECK_CUDA_def invoke_def say_def Let_def
           split: if_splits prod.splits sum.splits)

lemma map_accepted:
  assumes "map_cuda_pages be reqId layer_idx req_offset kcache_ptr vcache_ptr k_page v_page s = Inr s1"
  shows "page_size s \<noteq> 0 \<and> map_preconditions s req_offset kcache_ptr vcache_ptr k_page v_page"
  using assms by (simp add: map_cuda_pages_def map_preconditions_def split: if_splits)

lemma map_recorded:
  assumes "page_size s \<noteq> 0"
    and "map_preconditions s req_offset kcache_ptr vcache_ptr k_page v_page"
    and "map_of (cuda_pagemap s) (reqId, req_offset, layer_idx) = Some pp"
  shows "map_cuda_pages be reqId layer_idx req_offset kcache_ptr vcache_ptr k_page v_page s = Inr s"
  using assms by (simp add: map_cuda_pages_def map_preconditions_def)

text \<open>
  Claim C1. When \<open>map_cuda_pages\<close> has returned for a key that was not in the table,
  a second call with the same key \<open>(reqId, layer_idx, req_offset)\<close> and valid
  arguments returns at once and leaves the globals and the history as they are,
  whatever page handles, base addresses and driver it is given. The two calls together
  have issued the two binds and the two permission grants of the first call and nothing
  else, and the table holds the pair of the first call.
\<close>

theorem map_twice_binds_once:
  assumes fresh: "map_of (cuda_pagemap s) (reqId, req_offset, layer_idx) = None"
    and first: "map_cuda_pages be reqId layer_idx req_offset kcache_ptr vcache_ptr k_page v_page s = Inr s1"
    and valid: "k_page' \<noteq> 0" "v_page' \<noteq> 0" "kcache_ptr' \<noteq> 0" "vcache_ptr' \<noteq> 0"
  shows "map_cuda_pages be' reqId layer_idx req_offset kcache_ptr' vcache_ptr' k_page' v_page' s1 = Inr s1
       \<and> calls_of (trace s1) = calls_of (trace s) @ map_calls s req_offset kcache_ptr vcache_ptr k_page v_page
       \<and> map_of (cuda_pagemap s1) (reqId, req_offset, layer_idx) = Some (k_page, v_page)"
proof -
  from map_fresh_success [OF fresh first] obtain es where
    s1: "s1 = s\<lparr>trace := trace s @ es,
                cuda_pagemap := AList.update (reqId, req_offset, layer_idx) (k_page, v_page) (cuda_pagemap s)\<rparr>"
    and es: "calls_of es = map_calls s req_offset kcache_ptr vcache_ptr k_page v_page"
    by (auto simp: map_calls_def)
  have rec: "map_of (cuda_pagemap s1) (reqId, req_offset, layer_idx) = Some (k_page, v_page)"
    by (simp add: s1 update_conv')
  from map_accepted [OF first] have "page_size s1 \<noteq> 0"
    and "map_preconditions s1 req_offset kcache_ptr' vcache_ptr' k_page' v_page'"
    using valid by (simp_all add: s1 map_preconditions_def)
  then have "map_cuda_pages be' reqId layer_idx req_offset kcache_ptr' vcache_ptr' k_page' v_page' s1 = Inr s1"
    using rec by (rule map_recorded)
  then show ?thesis using rec es by (simp add: s1)
qed

theorem map_twice_binds_once_witness:
  "map_cuda_pages driver_ok 7 0 0 1073741824 3221225472 101 102 session_ready = Inr session_mapped
   \<and> map_cuda_pages driver_ok 7 0 0 1073741824 3221225472 102 101 session_mapped = Inr session_mapped
   \<and> map_of (cuda_pagemap session_mapped) (7, 0, 0) = Some (101, 102)"
proof -
  have fresh: "map_of (cuda_pagemap session_ready) (7, 0, 0) = None"
    by (simp add: scenario_defs)
  have first: "map_cuda_pages driver_ok 7 0 0 1073741824 3221225472 101 102 session_ready = Inr session_mapped"
    by (simp add: map_cuda_pages_def CHECK_CUDA_def invoke_def say_def Let_def scenario_defs)
  from map_twice_binds_once [OF fresh first, of 102 101 1073741824 3221225472 driver_ok] first
  show ?thesis by simp
qed



text \<open>
  Claim C3. With a page size other than zero, a call of \<open>map_cuda_pages\<close> whose offset
  is not a multiple of the page size exits with the diagnostic of the alignment check,
  and the history of the stopped process holds no driver call beyond those made before
  the call. Every call that returns had an offset that is a multiple of the page size.
\<close>

theorem map_alignment:
  "(page_size s \<noteq> 0 \<and> req_offset mod page_size s \<noteq> 0 \<longrightarrow>
      map_cuda_pages be reqId layer_idx req_offset kcache_ptr vcache_ptr k_page v_page s =
        Inl (Exit (say (Stderr (Misaligned_offset req_offset (page_size s))) s))
      \<and> calls_of (trace (say (Stderr (Misaligned_offset req_offset (page_size s))) s)) = calls_of (trace s))
   \<and> (\<forall>s'. map_cuda_pages be reqId layer_idx req_offset kcache_ptr vcache_ptr k_page v_page s = Inr s' \<longrightarrow>
         page_size s \<noteq> 0 \<and> req_offset mod page_size s = 0)"
  by (simp add: map_cuda_pages_def say_def split: if_splits)

theorem map_alignment_witness:
  "page_size session_ready \<noteq> 0 \<and> 5 mod page_size session_ready \<noteq> 0
   \<and> map_cuda_pages driver_ok 7 0 5 1073741824 3221225472 101 102 session_ready =
       Inl (Exit (say (Stderr (Misaligned_offset 5 2097152)) session_ready))
   \<and> map_cuda_pages driver_ok 7 0 0 1073741824 3221225472 101 102 session_ready = Inr session_mapped
   \<and> 0 mod page_size session_ready = 0"
proof -
  have h: "page_size session_ready \<noteq> 0 \<and> 5 mod page_size session_ready \<noteq> 0"
    by (simp add: scenario_defs)
  have ps: "page_size session_ready = 2097152"
    by (simp add: scenario_defs)
  have run: "map_cuda_pages driver_ok 7 0 0 1073741824 3221225472 101 102 session_ready = Inr session_mapped"
    by (simp add: map_cuda_pages_def CHECK_CUDA_def invoke_def say_def Let_def scenario_defs)
  from map_alignment [of session_ready 5 driver_ok 7 0 1073741824 3221225472 101 102] h
  have "map_cuda_pages driver_ok 7 0 5 1073741824 3221225472 101 102 session_ready =
       Inl (Exit (say (Stderr (Misaligned_offset 5 2097152)) session_ready))"
    by (simp add: ps)
  moreover from map_alignment [of session_ready 0 driver_ok 7 0 1073741824 3221225472 101 102] run
  have "0 mod page_size session_ready = 0"
    by blast
  ultimately show ?thesis using h run
    by (intro conjI) simp_all
qed

text \<open>
  Claim C9. The four precondition checks stand before the lookup of the key: when the
  key is already recorded and the arguments violate a precondition, \<open>map_cuda_pages\<close>
  does not return; the process exits with the diagnostic of one of the four checks and
  has made no driver call.
\<close>

theorem map_checks_before_lookup:
  assumes "map_of (cuda_pagemap s) (reqId, req_offset, layer_idx) = Some pp"
    and "page_size s \<noteq> 0"
    and "\<not> map_preconditions s req_offset kcache_ptr vcache_ptr k_page v_page"
  shows "\<exists>d. map_cuda_pages be reqId layer_idx req_offset kcache_ptr vcache_ptr k_page v_page s =
               Inl (Exit (say (Stderr d) s))
            \<and> d \<in> {Misaligned_offset req_offset (page_size s), Invalid_handle k_page v_page,
                     Invalid_pointers, Descriptor_uninitialized}"
  using assms by (auto simp: map_cuda_pages_def map_preconditions_def)

theorem map_checks_before_lookup_witness:
  "map_of (cuda_pagemap session_mapped) (7, 0, 0) = Some (101, 102)
   \<and> page_size session_mapped \<noteq> 0
   \<and> \<not> map_preconditions session_mapped 0 1073741824 3221225472 0 102
   \<and> (\<exists>d. map_cuda_pages driver_ok 7 0 0 1073741824 3221225472 0 102 session_mapped =
              Inl (Exit (say (Stderr d) session_mapped))
          \<and> d \<in> {Misaligned_offset 0 (page_size session_mapped), Invalid_handle 0 102,
                   Invalid_pointers, Descriptor_uninitialized})"
proof -
  have h1: "map_of (cuda_pagemap session_mapped) (7, 0, 0) = Some (101, 102)"
    by (simp add: scenario_defs)
  have h2: "page_size session_mapped \<noteq> 0"
    by (simp add: scenario_defs)
  have h3: "\<not> map_preconditions session_mapped 0 1073741824 3221225472 0 102"
    by (simp add: map_preconditions_def)
  note map_checks_before_lookup [OF h1 h2 h3, of driver_ok]
  with h1 h2 h3 show ?thesis
    by (intro conjI)
qed

text \<open>
  Calls with pairwise distinct keys that are not yet in the table, taken in any order:
  when the run returns, the table has gained exactly one entry for each call, with the
  pages of that call, and the driver has seen the binds and grants of each call once.
\<close>

lemma update_fresh: "map_of al k = None \<Longrightarrow> AList.update k v al = al @ [(k, v)]"
  by (induction al) (auto split: if_splits)

lemma calls_for_same:
  "page_size s1 = page_size s \<Longrightarrow> accessDesc s1 = accessDesc s \<Longrightarrow> calls_for s1 = calls_for s"
  by (simp add: fun_eq_iff calls_for_def map_calls_def)

lemma map_in_turn_distinct:
  assumes "distinct (map key_of cs)"
    and "\<forall>c \<in> set cs. map_of (cuda_pagemap s) (key_of c) = None"
    and "map_in_turn be cs s = Inr s'"
  shows "cuda_pagemap s' = cuda_pagemap s @ map entry_of cs
       \<and> calls_of (trace s') = calls_of (trace s) @ concat (map (calls_for s) cs)"
  using assms
proof (induction cs arbitrary: s)
  case Nil
  then show ?case by simp
next
  case (Cons c cs)
  from Cons.prems(3) obtain s1 where
    first: "map_cuda_pages be (arg_reqId c) (arg_layer_idx c) (arg_req_offset c)
             (arg_kcache_ptr c) (arg_vcache_ptr c) (arg_k_page c) (arg_v_page c) s = Inr s1"
    and rest: "map_in_turn be cs s1 = Inr s'"
    by (auto split: sum.splits)
  from Cons.prems(2) have fresh: "map_of (cuda_pagemap s) (arg_reqId c, arg_req_offset c, arg_layer_idx c) = None"
    by (simp add: key_of_def)
  from map_fresh_success [OF fresh first] obtain es where
    s1: "s1 = s\<lparr>trace := trace s @ es,
                cuda_pagemap := AList.update (key_of c) (arg_k_page c, arg_v_page c) (cuda_pagemap s)\<rparr>"
    and es: "calls_of es = calls_for s c"
    by (auto simp: map_calls_def calls_for_def key_of_def)
  have tab: "cuda_pagemap s1 = cuda_pagemap s @ [entry_of c]"
    using fresh by (simp add: s1 update_fresh key_of_def entry_of_def)
  have "\<forall>c' \<in> set cs. map_of (cuda_pagemap s1) (key_of c') = None"
  proof
    fix c'
    assume c': "c' \<in> set cs"
    with Cons.prems(1) have "key_of c' \<noteq> key_of c"
      by (metis distinct.simps(2) image_eqI list.simps(9) set_map)
    with c' Cons.prems(2) show "map_of (cuda_pagemap s1) (key_of c') = None"
      by (simp add: tab entry_of_def map_add_def)
  qed
  moreover have "distinct (map key_of cs)"
    using Cons.prems(1) by simp
  ultimately have "cuda_pagemap s' = cuda_pagemap s1 @ map entry_of cs
       \<and> calls_of (trace s') = calls_of (trace s1) @ concat (map (calls_for s1) cs)"
    using rest by (intro Cons.IH)
  moreover have "calls_for s1 = calls_for s"
    by (rule calls_for_same) (simp_all add: s1)
  moreover have "trace s1 = trace s @ es"
    by (simp add: s1)
  ultimately show ?case
    using es tab by simp
qed

subsection \<open>Initialisation\<close>

text \<open>
  Claim C5. When \<open>do_cuda_default_init\<close> returns, the value it returns is the
  configured page size, the driver has reported exactly that granularity for the
  allocation properties of the device, and both descriptors are built. When the driver
  answers the three calls with success, gives a context and reports another
  granularity, the process exits with the diagnostic of the mismatch.
\<close>

theorem init_granularity:
  "(\<forall>g s'. do_cuda_default_init be device pg_size s = Inr (g, s') \<longrightarrow>
       g = pg_size \<and> ctx s' \<noteq> 0
     \<and> alloc_prop s' = device_prop device \<and> accessDesc s' = device_accessDesc device
     \<and> (\<exists>o1. trace s' = trace s @
            [Backend (CuInit 0) (CUDA_SUCCESS, o1),
             Backend CuCtxGetCurrent (CUDA_SUCCESS, ctx s'),
             Backend (CuMemGetAllocationGranularity (device_prop device) CU_MEM_ALLOC_GRANULARITY_MINIMUM)
               (CUDA_SUCCESS, pg_size)]))
   \<and> (let r1 = be (trace s) (CuInit 0);
           t1 = trace s @ [Backend (CuInit 0) r1];
           r2 = be t1 CuCtxGetCurrent;
           t2 = t1 @ [Backend CuCtxGetCurrent r2];
           q = CuMemGetAllocationGranularity (device_prop device) CU_MEM_ALLOC_GRANULARITY_MINIMUM;
           r3 = be t2 q;
           t3 = t2 @ [Backend q r3]
       in fst r1 = CUDA_SUCCESS \<and> fst r2 = CUDA_SUCCESS \<and> snd r2 \<noteq> 0 \<and> fst r3 = CUDA_SUCCESS
            \<and> snd r3 \<noteq> pg_size \<longrightarrow>
          do_cuda_default_init be device pg_size s =
            Inl (Exit (s\<lparr>ctx := snd r2, alloc_prop := device_prop device,
                         accessDesc := device_accessDesc device,
                         trace := t3 @ [Stderr (Granularity_mismatch pg_size (snd r3))]\<rparr>)))"
  by (auto simp: do_cuda_default_init_def CHECK_CUDA_def invoke_def say_def Let_def
        device_prop_def device_accessDesc_def zero_prop_def zero_accessDesc_def
        split: prod.splits if_splits sum.splits)

theorem init_granularity_witness:
  "do_cuda_default_init driver_ok 0 2097152 session_blank =
     Inr (2097152, session_blank\<lparr>ctx := 1, alloc_prop := device_prop 0, accessDesc := device_accessDesc 0,
            trace := [Backend (CuInit 0) (CUDA_SUCCESS, 0), Backend CuCtxGetCurrent (CUDA_SUCCESS, 1),
                      Backend (CuMemGetAllocationGranularity (device_prop 0) CU_MEM_ALLOC_GRANULARITY_MINIMUM)
                        (CUDA_SUCCESS, 2097152)]\<rparr>)
   \<and> (\<exists>x. do_cuda_default_init driver_ok 0 4096 session_blank = Inl (Exit x)
          \<and> last (trace x) = Stderr (Granularity_mismatch 4096 2097152))"
proof -
  have run: "do_cuda_default_init driver_ok 0 2097152 session_blank =
     Inr (2097152, session_blank\<lparr>ctx := 1, alloc_prop := device_prop 0, accessDesc := device_accessDesc 0,
            trace := [Backend (CuInit 0) (CUDA_SUCCESS, 0), Backend CuCtxGetCurrent (CUDA_SUCCESS, 1),
                      Backend (CuMemGetAllocationGranularity (device_prop 0) CU_MEM_ALLOC_GRANULARITY_MINIMUM)
                        (CUDA_SUCCESS, 2097152)]\<rparr>)"
    by (simp add: do_cuda_default_init_def CHECK_CUDA_def invoke_def say_def Let_def scenario_defs)
  from init_granularity [of driver_ok 0 2097152 session_blank] run
  have "(2097152 :: u64) = 2097152" by blast
  moreover from init_granularity [of driver_ok 0 4096 session_blank]
  have "\<exists>x. do_cuda_default_init driver_ok 0 4096 session_blank = Inl (Exit x)
          \<and> last (trace x) = Stderr (Granularity_mismatch 4096 2097152)"
    by (simp add: Let_def scenario_defs)
  ultimately show ?thesis using run by simp
qed

subsection \<open>The page pool\<close>

lemma reserve_loop_returns:
  assumes "reserve_loop be pg_size num_phys_blocks s = Inr s'"
  shows "\<exists>es. s' = s\<lparr>trace := trace s @ es, cuda_pages := cuda_pages s @ handles_of es\<rparr>
            \<and> calls_of es = replicate (unat num_phys_blocks - length (cuda_pages s))
                               (CuMemCreate pg_size (alloc_prop s) 0)
            \<and> (\<forall>e \<in> set es. \<not> failed e)"
  using assms
proof (induction be pg_size num_phys_blocks s rule: reserve_loop.induct)
  case (1 be pg_size num_phys_blocks s)
  let ?c = "CuMemCreate pg_size (alloc_prop s) 0"
  let ?r = "be (trace s) ?c"
  show ?case
  proof (cases "length (cuda_pages s) < unat num_phys_blocks")
    case False
    with "1.prems" have "s' = s" by (simp add: reserve_loop.simps [of be pg_size num_phys_blocks s])
    with False show ?thesis by (intro exI[of _ "[]"]) simp
  next
    case True
    let ?s1 = "s\<lparr>trace := trace s @ [Backend ?c ?r]\<rparr>"
    let ?s2 = "?s1\<lparr>cuda_pages := cuda_pages ?s1 @ [snd ?r]\<rparr>"
    from True "1.prems" have ok: "fst ?r = CUDA_SUCCESS"
      by (auto simp: reserve_loop.simps [of be pg_size num_phys_blocks s] CHECK_CUDA_def invoke_def say_def Let_def split_beta split: if_splits)
    then have chk: "CHECK_CUDA be ''cuMemCreate(&cuda_page, page_size, &prop, 0)'' ?c s = Inr (snd ?r, ?s1)"
      by (simp add: CHECK_CUDA_def invoke_def say_def Let_def split_beta)
    with True "1.prems" have rec: "reserve_loop be pg_size num_phys_blocks ?s2 = Inr s'"
      by (simp add: reserve_loop.simps [of be pg_size num_phys_blocks s])
    from "1.IH" [OF True chk refl rec] obtain es where
      es: "s' = ?s2\<lparr>trace := trace ?s2 @ es, cuda_pages := cuda_pages ?s2 @ handles_of es\<rparr>"
        "calls_of es = replicate (unat num_phys_blocks - length (cuda_pages ?s2)) (CuMemCreate pg_size (alloc_prop ?s2) 0)"
        "\<forall>e \<in> set es. \<not> failed e"
      by blast
    have n: "unat num_phys_blocks - length (cuda_pages s) = Suc (unat num_phys_blocks - length (cuda_pages ?s2))"
      using True by simp
    show ?thesis
      using es ok by (intro exI[of _ "Backend ?c ?r # es"]) (simp add: n)
  qed
qed

lemma reserve_loop_exits:
  assumes "reserve_loop be pg_size num_phys_blocks s = Inl e"
  shows "\<exists>x es d. e = Exit x \<and> trace x = trace s @ es @ [Stderr d] \<and> es \<noteq> [] \<and> failed (last es)"
  using assms
proof (induction be pg_size num_phys_blocks s rule: reserve_loop.induct)
  case (1 be pg_size num_phys_blocks s)
  let ?c = "CuMemCreate pg_size (alloc_prop s) 0"
  let ?r = "be (trace s) ?c"
  let ?s1 = "s\<lparr>trace := trace s @ [Backend ?c ?r]\<rparr>"
  let ?s2 = "?s1\<lparr>cuda_pages := cuda_pages ?s1 @ [snd ?r]\<rparr>"
  from "1.prems" have lt: "length (cuda_pages s) < unat num_phys_blocks"
    by (auto simp: reserve_loop.simps [of be pg_size num_phys_blocks s] split: if_splits)
  show ?case
  proof (cases "fst ?r = CUDA_SUCCESS")
    case True
    then have chk: "CHECK_CUDA be ''cuMemCreate(&cuda_page, page_size, &prop, 0)'' ?c s = Inr (snd ?r, ?s1)"
      by (simp add: CHECK_CUDA_def invoke_def say_def Let_def split_beta)
    with lt "1.prems" have rec: "reserve_loop be pg_size num_phys_blocks ?s2 = Inl e"
      by (simp add: reserve_loop.simps [of be pg_size num_phys_blocks s])
    from "1.IH" [OF lt chk refl rec] obtain x es d where
      "e = Exit x" "trace x = trace ?s2 @ es @ [Stderr d]" "es \<noteq> []" "failed (last es)"
      by blast
    then show ?thesis
      by (intro exI[of _ x] exI[of _ "Backend ?c ?r # es"] exI[of _ d]) simp
  next
    case False
    then have "CHECK_CUDA be ''cuMemCreate(&cuda_page, page_size, &prop, 0)'' ?c s =
                 Inl (Exit (?s1\<lparr>trace := trace ?s1 @ [Stderr (Check_failed ''cuMemCreate(&cuda_page, page_size, &prop, 0)'' (fst ?r))]\<rparr>))"
      by (simp add: CHECK_CUDA_def invoke_def say_def Let_def split_beta)
    with lt "1.prems" have "e = Exit (?s1\<lparr>trace := trace ?s1 @ [Stderr (Check_failed ''cuMemCreate(&cuda_page, page_size, &prop, 0)'' (fst ?r))]\<rparr>)"
      by (simp add: reserve_loop.simps [of be pg_size num_phys_blocks s])
    with False show ?thesis
      by (intro exI[of _ "?s1\<lparr>trace := trace ?s1 @ [Stderr (Check_failed ''cuMemCreate(&cuda_page, page_size, &prop, 0)'' (fst ?r))]\<rparr>"]
            exI[of _ "[Backend ?c ?r]"] exI) simp
  qed
qed

text \<open>
  Claim C4. When \<open>reserve_cuda_pages\<close> returns, the pool is the old pool followed by
  the handles that the driver created, one call of \<open>cuMemCreate\<close> of \<open>pg_size\<close> bytes
  for each missing page and no other driver call; the size of the pool, which is the
  value returned, is the maximum of the old size and the target. When the target is
  already met, the function returns the old size and only writes its log line. The
  function does not return only when a call of \<open>cuMemCreate\<close> fails, which is fatal.
\<close>

theorem reserve_reaches_target:
  "(\<forall>r s'. reserve_cuda_pages be get_num_phys_blocks num_layers free_memory pg_size s = Inr (r, s') \<longrightarrow>
            r = of_nat (max (length (cuda_pages s)) (unat (get_num_phys_blocks num_layers free_memory pg_size)))
          \<and> length (cuda_pages s') = max (length (cuda_pages s)) (unat (get_num_phys_blocks num_layers free_memory pg_size))
          \<and> (\<exists>es. trace s' = trace s @ Log_reserving (get_num_phys_blocks num_layers free_memory pg_size) pg_size # es
                 \<and> cuda_pages s' = cuda_pages s @ handles_of es
                 \<and> calls_of es = replicate (unat (get_num_phys_blocks num_layers free_memory pg_size) - length (cuda_pages s))
                                    (CuMemCreate pg_size (alloc_prop s) 0)))
       \<and> (unat (get_num_phys_blocks num_layers free_memory pg_size) \<le> length (cuda_pages s) \<longrightarrow>
            reserve_cuda_pages be get_num_phys_blocks num_layers free_memory pg_size s =
              Inr (of_nat (length (cuda_pages s)), say (Log_reserving (get_num_phys_blocks num_layers free_memory pg_size) pg_size) s))
       \<and> (\<forall>e. reserve_cuda_pages be get_num_phys_blocks num_layers free_memory pg_size s = Inl e \<longrightarrow>
            (\<exists>x es d. e = Exit x \<and> trace x = trace s @ Log_reserving (get_num_phys_blocks num_layers free_memory pg_size) pg_size # es @ [Stderr d]
                     \<and> es \<noteq> [] \<and> failed (last es)))"
proof (intro conjI allI impI)
  let ?target = "get_num_phys_blocks num_layers free_memory pg_size"
  fix r s'
  assume res: "reserve_cuda_pages be get_num_phys_blocks num_layers free_memory pg_size s = Inr (r, s')"
  let ?s1 = "say (Log_reserving ?target pg_size) s"
  from res have loop: "reserve_loop be pg_size ?target ?s1 = Inr s'"
    and r: "r = of_nat (length (cuda_pages s'))"
    by (auto simp: reserve_cuda_pages_def Let_def split: sum.splits)
  from reserve_loop_returns [OF loop] obtain es where
    es: "s' = ?s1\<lparr>trace := trace ?s1 @ es, cuda_pages := cuda_pages ?s1 @ handles_of es\<rparr>"
      "calls_of es = replicate (unat ?target - length (cuda_pages ?s1)) (CuMemCreate pg_size (alloc_prop ?s1) 0)"
    by blast
  from es(2) have "length (calls_of es) = unat ?target - length (cuda_pages s)"
    by (simp add: say_def)
  moreover have "length (handles_of es) = length (calls_of es)"
    using es(2) by (rule handles_of_creates)
  ultimately show len: "length (cuda_pages s') = max (length (cuda_pages s)) (unat ?target)"
    by (simp add: es(1) say_def)
  then show "r = of_nat (max (length (cuda_pages s)) (unat ?target))"
    using r by simp
  show "\<exists>es. trace s' = trace s @ Log_reserving ?target pg_size # es
           \<and> cuda_pages s' = cuda_pages s @ handles_of es
           \<and> calls_of es = replicate (unat ?target - length (cuda_pages s)) (CuMemCreate pg_size (alloc_prop s) 0)"
    using es by (intro exI[of _ es]) (simp add: say_def)
next
  let ?target = "get_num_phys_blocks num_layers free_memory pg_size"
  assume "unat ?target \<le> length (cuda_pages s)"
  then show "reserve_cuda_pages be get_num_phys_blocks num_layers free_memory pg_size s =
              Inr (of_nat (length (cuda_pages s)), say (Log_reserving ?target pg_size) s)"
    by (simp add: reserve_cuda_pages_def Let_def say_def
          reserve_loop.simps [of be pg_size ?target])
next
  let ?target = "get_num_phys_blocks num_layers free_memory pg_size"
  fix e
  assume "reserve_cuda_pages be get_num_phys_blocks num_layers free_memory pg_size s = Inl e"
  then have "reserve_loop be pg_size ?target (say (Log_reserving ?target pg_size) s) = Inl e"
    by (auto simp: reserve_cuda_pages_def Let_def split: sum.splits)
  from reserve_loop_exits [OF this]
  show "\<exists>x es d. e = Exit x \<and> trace x = trace s @ Log_reserving ?target pg_size # es @ [Stderr d]
                     \<and> es \<noteq> [] \<and> failed (last es)"
    by (auto simp: say_def)
qed

theorem reserve_reaches_target_witness:
  "reserve_cuda_pages driver_ok (\<lambda>num_layers free_memory pg_size. 4) 2 67108864 2097152 session_ready =
     Inr (4, session_ready\<lparr>cuda_pages := [101, 102, 201, 202],
               trace := [Log_reserving 4 2097152,
                         Backend (CuMemCreate 2097152 (device_prop 0) 0) (CUDA_SUCCESS, 201),
                         Backend (CuMemCreate 2097152 (device_prop 0) 0) (CUDA_SUCCESS, 202)]\<rparr>)
   \<and> unat (1 :: u64) \<le> length (cuda_pages session_ready)
   \<and> reserve_cuda_pages driver_ok (\<lambda>num_layers free_memory pg_size. 1) 2 67108864 2097152 session_ready =
       Inr (2, say (Log_reserving 1 2097152) session_ready)"
proof -
  have run: "reserve_cuda_pages driver_ok (\<lambda>num_layers free_memory pg_size. 4) 2 67108864 2097152 session_ready =
     Inr (4, session_ready\<lparr>cuda_pages := [101, 102, 201, 202],
               trace := [Log_reserving 4 2097152,
                         Backend (CuMemCreate 2097152 (device_prop 0) 0) (CUDA_SUCCESS, 201),
                         Backend (CuMemCreate 2097152 (device_prop 0) 0) (CUDA_SUCCESS, 202)]\<rparr>)"
    by (simp add: reserve_cuda_pages_def reserve_loop.simps CHECK_CUDA_def invoke_def say_def Let_def
          scenario_defs)
  have met: "unat (1 :: u64) \<le> length (cuda_pages session_ready)"
    by (simp add: scenario_defs)
  have len: "length (cuda_pages session_ready) = 2"
    by (simp add: scenario_defs)
  from reserve_reaches_target [of driver_ok "\<lambda>num_layers free_memory pg_size. 1" 2 67108864 2097152 session_ready] met
  have "reserve_cuda_pages driver_ok (\<lambda>num_layers free_memory pg_size. 1) 2 67108864 2097152 session_ready =
       Inr (2, say (Log_reserving 1 2097152) session_ready)"
    by (simp add: len)
  with run met show ?thesis by blast
qed

subsection \<open>Teardown\<close>

text \<open>
  The conversion of an \<open>int\<close> to \<open>size_t\<close> keeps a non-negative value and sends a
  negative one beyond every count an \<open>int\<close> can hold.
\<close>

lemma layer_index_nonneg:
  fixes l :: int32
  assumes "0 \<le> sint l"
  shows "unat (scast l :: u64) = nat (sint l)"
proof -
  have "sint l < 2 ^ 31" using sint_lt [of l] by simp
  then have "sint l < 2 ^ 64" by simp
  with assms have "sint l mod 2 ^ 64 = sint l" by simp
  moreover have "uint (scast l :: u64) = sint l mod 2 ^ 64"
    by (subst scast_eq) (simp only: uint_word_of_int len_of_numeral_defs, simp)
  ultimately have "uint (scast l :: u64) = sint l" by simp
  moreover have "unat (scast l :: u64) = nat (uint (scast l :: u64))"
    by (rule unat_eq_nat_uint)
  ultimately show ?thesis by simp
qed

lemma layer_index_neg:
  fixes l :: int32
  assumes "sint l < 0"
  shows "2 ^ 63 \<le> unat (scast l :: u64)"
proof -
  have lo: "- (2 ^ 31) \<le> sint l" using sint_ge [of l] by simp
  have "uint (scast l :: u64) = sint l mod 2 ^ 64"
    by (subst scast_eq) (simp only: uint_word_of_int len_of_numeral_defs, simp)
  also have "\<dots> = (sint l + 2 ^ 64) mod 2 ^ 64"
    by simp
  also have "\<dots> = sint l + 2 ^ 64"
    using assms lo by (intro mod_pos_pos_trivial) simp_all
  finally have "uint (scast l :: u64) = sint l + 2 ^ 64" .
  then have "2 ^ 63 \<le> uint (scast l :: u64)" using lo by simp
  then have "nat (2 ^ 63) \<le> nat (uint (scast l :: u64))"
    by (rule nat_mono)
  then have "2 ^ 63 \<le> nat (uint (scast l :: u64))"
    by simp
  then show ?thesis
    by (simp only: unat_eq_nat_uint)
qed

lemma layer_index_iff:
  fixes l :: int32
  assumes "n \<le> INT_MAX"
  shows "unat (scast l :: u64) < n \<longleftrightarrow> 0 \<le> sint l \<and> nat (sint l) < n"
proof (cases "0 \<le> sint l")
  case True
  then show ?thesis by (simp add: layer_index_nonneg)
next
  case False
  then have "2 ^ 63 \<le> unat (scast l :: u64)"
    by (intro layer_index_neg) simp
  with assms False show ?thesis by (simp add: INT_MAX_def)
qed

lemma next_is_append: "next_is P es \<Longrightarrow> next_is P (es @ ys)"
  by (cases es) (simp_all add: next_is_def)

lemma next_is_tl_append: "next_is P es \<Longrightarrow> next_is Q (tl es) \<Longrightarrow> next_is Q (tl (es @ ys))"
  by (cases es) (simp_all add: next_is_def next_is_append split: list.splits)

lemma warned_append: "warned e es \<Longrightarrow> warned e (es @ ys)"
  by (induction e es rule: warned.induct) (auto intro: next_is_append next_is_tl_append)

lemma every_failure_logged_append:
  "every_failure_logged xs \<Longrightarrow> every_failure_logged ys \<Longrightarrow> every_failure_logged (xs @ ys)"
  by (induction xs) (auto intro: warned_append)

lemma resolves_trace [simp]: "resolves (s\<lparr>trace := t\<rparr>) = resolves s"
  by (simp add: fun_eq_iff resolves_def split: prod.splits)

lemma entry_unmap_calls_trace [simp]: "entry_unmap_calls (s\<lparr>trace := t\<rparr>) = entry_unmap_calls s"
  by (simp add: fun_eq_iff entry_unmap_calls_def split: prod.splits)

lemma free_calls_trace [simp]: "free_calls (s\<lparr>trace := t\<rparr>) = free_calls s"
  by (simp add: fun_eq_iff free_calls_def)

lemma free_calls_pagemap [simp]: "free_calls (s\<lparr>cuda_pagemap := p\<rparr>) = free_calls s"
  by (auto simp: fun_eq_iff free_calls_def)

text \<open>The first phase, entry by entry.\<close>

lemma unmap_mapping_returns:
  assumes "length (k_tensors s) \<le> length (v_tensors s)"
  shows "\<exists>es. unmap_mapping be m s = Inr (s\<lparr>trace := trace s @ es\<rparr>)"
proof -
  obtain reqId req_offset layer_idx pages where m: "m = ((reqId, req_offset, layer_idx), pages)"
    by (metis prod.exhaust)
  let ?idx = "unat (scast layer_idx :: u64)"
  show ?thesis
  proof (cases "?idx < length (k_tensors s) \<and> k_tensors s ! ?idx \<noteq> 0 \<and> v_tensors s ! ?idx \<noteq> 0")
    case False
    then have "unmap_mapping be m s = Inr s"
      using assms by (auto simp: unmap_mapping_def m Let_def split: prod.splits)
    then show ?thesis
      by (intro exI[of _ "[]"]) simp
  next
    case True
    let ?c1 = "CuMemUnmap (k_tensors s ! ?idx + req_offset) (page_size s)"
    let ?c2 = "CuMemUnmap (v_tensors s ! ?idx + req_offset) (page_size s)"
    let ?r1 = "be (trace s) ?c1"
    let ?r2 = "be (trace s @ [Backend ?c1 ?r1]) ?c2"
    let ?es = "[Backend ?c1 ?r1, Backend ?c2 ?r2] @
               (if fst ?r1 \<noteq> CUDA_SUCCESS \<or> fst ?r2 \<noteq> CUDA_SUCCESS then [Stderr Warn_unmap] else [])"
    from True assms have "unmap_mapping be m s = Inr (s\<lparr>trace := trace s @ ?es\<rparr>)"
      by (simp add: unmap_mapping_def m Let_def invoke_def say_def split_beta)
    then show ?thesis by (intro exI[of _ ?es])
  qed
qed

lemma unmap_mapping_events:
  assumes "length (k_tensors s) \<le> length (v_tensors s)" and "length (k_tensors s) \<le> INT_MAX"
  shows "\<exists>es. unmap_mapping be m s = Inr (s\<lparr>trace := trace s @ es\<rparr>)
            \<and> calls_of es = (if resolves s m then entry_unmap_calls s m else [])
            \<and> every_failure_logged es \<and> Cerr_failed \<notin> set es
            \<and> (\<forall>d. Stderr d \<in> set es \<longrightarrow> d = Warn_unmap)"
proof -
  obtain reqId req_offset layer_idx pages where m: "m = ((reqId, req_offset, layer_idx), pages)"
    by (metis prod.exhaust)
  let ?idx = "unat (scast layer_idx :: u64)"
  have in_range: "?idx < length (k_tensors s) \<longleftrightarrow>
      0 \<le> sint layer_idx \<and> nat (sint layer_idx) < length (k_tensors s)"
    using assms(2) by (rule layer_index_iff)
  show ?thesis
  proof (cases "resolves s m")
    case False
    have "\<not> (?idx < length (k_tensors s) \<and> k_tensors s ! ?idx \<noteq> 0 \<and> v_tensors s ! ?idx \<noteq> 0)"
    proof
      assume a: "?idx < length (k_tensors s) \<and> k_tensors s ! ?idx \<noteq> 0 \<and> v_tensors s ! ?idx \<noteq> 0"
      with in_range have nn: "0 \<le> sint layer_idx" by simp
      then have "?idx = nat (sint layer_idx)" by (rule layer_index_nonneg)
      with a nn have "resolves s m" by (simp add: resolves_def m)
      with False show False ..
    qed
    then have "unmap_mapping be m s = Inr s"
      using assms(1) by (auto simp: unmap_mapping_def m Let_def split: prod.splits)
    with False show ?thesis
      by (intro exI[of _ "[]"]) simp
  next
    case True
    then have nn: "0 \<le> sint layer_idx" by (simp add: resolves_def m)
    then have idx: "?idx = nat (sint layer_idx)" by (rule layer_index_nonneg)
    from True have guard: "?idx < length (k_tensors s)" "k_tensors s ! ?idx \<noteq> 0" "v_tensors s ! ?idx \<noteq> 0"
      by (simp_all add: resolves_def m idx)
    let ?c1 = "CuMemUnmap (k_tensors s ! ?idx + req_offset) (page_size s)"
    let ?c2 = "CuMemUnmap (v_tensors s ! ?idx + req_offset) (page_size s)"
    let ?r1 = "be (trace s) ?c1"
    let ?r2 = "be (trace s @ [Backend ?c1 ?r1]) ?c2"
    let ?es = "[Backend ?c1 ?r1, Backend ?c2 ?r2] @
               (if fst ?r1 \<noteq> CUDA_SUCCESS \<or> fst ?r2 \<noteq> CUDA_SUCCESS then [Stderr Warn_unmap] else [])"
    from guard assms(1) have "unmap_mapping be m s = Inr (s\<lparr>trace := trace s @ ?es\<rparr>)"
      by (simp add: unmap_mapping_def m Let_def invoke_def say_def split_beta)
    moreover have "calls_of ?es = (if resolves s m then entry_unmap_calls s m else [])"
      using True by (simp add: entry_unmap_calls_def m idx)
    moreover have "every_failure_logged ?es"
      by (simp add: next_is_def)
    moreover have "Cerr_failed \<notin> set ?es"
      by simp
    moreover have "\<forall>d. Stderr d \<in> set ?es \<longrightarrow> d = Warn_unmap"
      by simp
    ultimately show ?thesis by blast
  qed
qed

lemma unmap_sweep_events:
  assumes "length (k_tensors s) \<le> length (v_tensors s)" and "length (k_tensors s) \<le> INT_MAX"
  shows "\<exists>es. unmap_sweep be ms s = Inr (s\<lparr>trace := trace s @ es\<rparr>)
            \<and> calls_of es = concat (map (entry_unmap_calls s) (filter (resolves s) ms))
            \<and> every_failure_logged es \<and> Cerr_failed \<notin> set es
            \<and> (\<forall>d. Stderr d \<in> set es \<longrightarrow> d = Warn_unmap)"
  using assms
proof (induction ms arbitrary: s)
  case Nil
  then show ?case by (intro exI[of _ "[]"]) simp
next
  case (Cons m ms)
  from unmap_mapping_events [OF Cons.prems, of be m] obtain e1 where
    e1: "unmap_mapping be m s = Inr (s\<lparr>trace := trace s @ e1\<rparr>)"
      "calls_of e1 = (if resolves s m then entry_unmap_calls s m else [])"
      "every_failure_logged e1" "Cerr_failed \<notin> set e1"
      "\<forall>d. Stderr d \<in> set e1 \<longrightarrow> d = Warn_unmap"
    by blast
  let ?s1 = "s\<lparr>trace := trace s @ e1\<rparr>"
  have "length (k_tensors ?s1) \<le> length (v_tensors ?s1)" "length (k_tensors ?s1) \<le> INT_MAX"
    using Cons.prems by simp_all
  from Cons.IH [OF this] obtain e2 where
    e2: "unmap_sweep be ms ?s1 = Inr (?s1\<lparr>trace := trace ?s1 @ e2\<rparr>)"
      "calls_of e2 = concat (map (entry_unmap_calls ?s1) (filter (resolves ?s1) ms))"
      "every_failure_logged e2" "Cerr_failed \<notin> set e2"
      "\<forall>d. Stderr d \<in> set e2 \<longrightarrow> d = Warn_unmap"
    by blast
  show ?case
    using e1 e2 by (intro exI[of _ "e1 @ e2"]) (auto simp: every_failure_logged_append)
qed

text \<open>The second phase, layer by layer.\<close>

lemma free_layer_events:
  assumes "i < length (v_tensors s)"
  shows "\<exists>es. free_layer be i s = Inr (s\<lparr>trace := trace s @ es\<rparr>)
            \<and> calls_of es = free_calls s i
            \<and> every_failure_logged es \<and> Cerr_failed \<notin> set es
            \<and> (\<forall>d. Stderr d \<in> set es \<longrightarrow> d = Warn_free_k \<or> d = Warn_free_v)"
proof -
  let ?ck = "CuMemAddressFree (k_tensors s ! i) (virt_buff_size s)"
  let ?cv = "CuMemAddressFree (v_tensors s ! i) (virt_buff_size s)"
  let ?rk = "be (trace s) ?ck"
  let ?ek = "if k_tensors s ! i \<noteq> 0
             then Backend ?ck ?rk # (if fst ?rk \<noteq> CUDA_SUCCESS then [Stderr Warn_free_k] else [])
             else []"
  let ?rv = "be (trace s @ ?ek) ?cv"
  let ?ev = "if v_tensors s ! i \<noteq> 0
             then Backend ?cv ?rv # (if fst ?rv \<noteq> CUDA_SUCCESS then [Stderr Warn_free_v] else [])
             else []"
  from assms have "free_layer be i s = Inr (s\<lparr>trace := trace s @ ?ek @ ?ev\<rparr>)"
    by (simp add: free_layer_def Let_def invoke_def say_def split_beta)
  moreover have "calls_of (?ek @ ?ev) = free_calls s i"
    by (simp add: free_calls_def)
  moreover have "every_failure_logged ?ek" "every_failure_logged ?ev"
    by (simp_all add: next_is_def)
  then have "every_failure_logged (?ek @ ?ev)"
    by (rule every_failure_logged_append)
  moreover have "Cerr_failed \<notin> set (?ek @ ?ev)"
    by simp
  moreover have "\<forall>d. Stderr d \<in> set (?ek @ ?ev) \<longrightarrow> d = Warn_free_k \<or> d = Warn_free_v"
    by simp
  ultimately show ?thesis by blast
qed

lemma free_loop_events:
  assumes "length (k_tensors s) \<le> length (v_tensors s)" and "length (k_tensors s) \<le> INT_MAX"
  shows "\<exists>es. free_loop be i s = Inr (s\<lparr>trace := trace s @ es\<rparr>)
            \<and> calls_of es = concat (map (free_calls s) [i..<length (k_tensors s)])
            \<and> every_failure_logged es \<and> Cerr_failed \<notin> set es
            \<and> (\<forall>d. Stderr d \<in> set es \<longrightarrow> d = Warn_free_k \<or> d = Warn_free_v)"
  using assms
proof (induction be i s rule: free_loop.induct)
  case (1 be i s)
  show ?case
  proof (cases "i < length (k_tensors s)")
    case False
    then have "free_loop be i s = Inr s"
      by (simp add: free_loop.simps [of be i s])
    with False show ?thesis
      by (intro exI[of _ "[]"]) simp
  next
    case True
    with "1.prems" have iv: "i < length (v_tensors s)" and ne: "i \<noteq> INT_MAX"
      by simp_all
    from free_layer_events [OF iv, of be] obtain e1 where
      e1: "free_layer be i s = Inr (s\<lparr>trace := trace s @ e1\<rparr>)"
        "calls_of e1 = free_calls s i" "every_failure_logged e1" "Cerr_failed \<notin> set e1"
        "\<forall>d. Stderr d \<in> set e1 \<longrightarrow> d = Warn_free_k \<or> d = Warn_free_v"
      by blast
    let ?s1 = "s\<lparr>trace := trace s @ e1\<rparr>"
    have wf1: "length (k_tensors ?s1) \<le> length (v_tensors ?s1)" "length (k_tensors ?s1) \<le> INT_MAX"
      using "1.prems" by simp_all
    from "1.IH" [OF True e1(1) ne wf1] obtain e2 where
      e2: "free_loop be (Suc i) ?s1 = Inr (?s1\<lparr>trace := trace ?s1 @ e2\<rparr>)"
        "calls_of e2 = concat (map (free_calls ?s1) [Suc i..<length (k_tensors ?s1)])"
        "every_failure_logged e2" "Cerr_failed \<notin> set e2"
        "\<forall>d. Stderr d \<in> set e2 \<longrightarrow> d = Warn_free_k \<or> d = Warn_free_v"
      by blast
    have "free_loop be i s = Inr (s\<lparr>trace := trace s @ e1 @ e2\<rparr>)"
      using True ne e1(1) e2(1) by (simp add: free_loop.simps [of be i s])
    moreover have "calls_of (e1 @ e2) = concat (map (free_calls s) [i..<length (k_tensors s)])"
      using True e1(2) e2(2) by (simp add: upt_conv_Cons)
    moreover have "every_failure_logged (e1 @ e2)"
      using e1(3) e2(3) by (rule every_failure_logged_append)
    moreover have "Cerr_failed \<notin> set (e1 @ e2)"
      using e1(4) e2(4) by simp
    moreover have "\<forall>d. Stderr d \<in> set (e1 @ e2) \<longrightarrow> d = Warn_free_k \<or> d = Warn_free_v"
      using e1(5) e2(5) by auto
    ultimately show ?thesis by blast
  qed
qed

text \<open>
  The third phase, page by page. The call is made whatever the driver answers; the
  warning is complete, and the stream stays in order, when the driver has its texts.
\<close>

lemma release_page_events:
  "\<exists>es. release_page be i s = s\<lparr>trace := trace s @ es\<rparr>
       \<and> calls_of es = [CuMemRelease (cuda_pages s ! i)]
       \<and> (has_texts be \<longrightarrow> every_failure_logged es \<and> Cerr_failed \<notin> set es)
       \<and> (\<forall>d. Stderr d \<in> set es \<longrightarrow> (\<exists>j r. d = Warn_release j r) \<or> (\<exists>j. d = Warn_release_no_text j))"
proof -
  let ?c = "CuMemRelease (cuda_pages s ! i)"
  let ?r = "be (trace s) ?c"
  let ?t = "snd (be (trace s @ [Backend ?c ?r]) (CuGetErrorString (fst ?r)))"
  let ?es = "Backend ?c ?r #
             (if fst ?r \<noteq> CUDA_SUCCESS
              then (if ?t = 0 then [Stderr (Warn_release_no_text i), Cerr_failed]
                    else [Stderr (Warn_release i (fst ?r))])
              else [])"
  have "release_page be i s = s\<lparr>trace := trace s @ ?es\<rparr>"
    by (simp add: release_page_def invoke_def say_def Let_def split_beta)
  moreover have "calls_of ?es = [?c]" by simp
  moreover have "has_texts be \<longrightarrow> every_failure_logged ?es \<and> Cerr_failed \<notin> set ?es"
    by (simp add: has_texts_def next_is_def)
  moreover have "\<forall>d. Stderr d \<in> set ?es \<longrightarrow>
      (\<exists>j r. d = Warn_release j r) \<or> (\<exists>j. d = Warn_release_no_text j)"
    by simp
  ultimately show ?thesis by blast
qed

lemma release_loop_events:
  assumes "length (cuda_pages s) \<le> INT_MAX"
  shows "\<exists>es. release_loop be i s = Inr (s\<lparr>trace := trace s @ es\<rparr>)
            \<and> calls_of es = map CuMemRelease (drop i (cuda_pages s))
            \<and> (has_texts be \<longrightarrow> every_failure_logged es \<and> Cerr_failed \<notin> set es)
            \<and> (\<forall>d. Stderr d \<in> set es \<longrightarrow>
                  (\<exists>j r. d = Warn_release j r) \<or> (\<exists>j. d = Warn_release_no_text j))"
  using assms
proof (induction be i s rule: release_loop.induct)
  case (1 be i s)
  show ?case
  proof (cases "i < length (cuda_pages s)")
    case False
    then have "release_loop be i s = Inr s"
      by (simp add: release_loop.simps [of be i s])
    with False show ?thesis
      by (intro exI[of _ "[]"]) simp
  next
    case True
    with "1.prems" have ne: "i \<noteq> INT_MAX"
      by simp
    from release_page_events [of be i s] obtain e1 where
      e1: "release_page be i s = s\<lparr>trace := trace s @ e1\<rparr>"
        "calls_of e1 = [CuMemRelease (cuda_pages s ! i)]"
        "has_texts be \<longrightarrow> every_failure_logged e1 \<and> Cerr_failed \<notin> set e1"
        "\<forall>d. Stderr d \<in> set e1 \<longrightarrow> (\<exists>j r. d = Warn_release j r) \<or> (\<exists>j. d = Warn_release_no_text j)"
      by blast
    let ?s1 = "s\<lparr>trace := trace s @ e1\<rparr>"
    have wf1: "length (cuda_pages ?s1) \<le> INT_MAX"
      using "1.prems" by simp
    from "1.IH" [OF True e1(1) [symmetric] ne wf1] obtain e2 where
      e2: "release_loop be (Suc i) ?s1 = Inr (?s1\<lparr>trace := trace ?s1 @ e2\<rparr>)"
        "calls_of e2 = map CuMemRelease (drop (Suc i) (cuda_pages ?s1))"
        "has_texts be \<longrightarrow> every_failure_logged e2 \<and> Cerr_failed \<notin> set e2"
        "\<forall>d. Stderr d \<in> set e2 \<longrightarrow> (\<exists>j r. d = Warn_release j r) \<or> (\<exists>j. d = Warn_release_no_text j)"
      by blast
    have "release_loop be i s = Inr (s\<lparr>trace := trace s @ e1 @ e2\<rparr>)"
      using True ne e1(1) e2(1) by (simp add: release_loop.simps [of be i s] Let_def)
    moreover have "calls_of (e1 @ e2) = map CuMemRelease (drop i (cuda_pages s))"
      using True e1(2) e2(2) by (simp add: Cons_nth_drop_Suc [symmetric])
    moreover have "has_texts be \<longrightarrow> every_failure_logged (e1 @ e2) \<and> Cerr_failed \<notin> set (e1 @ e2)"
      using e1(3) e2(3) by (auto intro: every_failure_logged_append)
    moreover have "\<forall>d. Stderr d \<in> set (e1 @ e2) \<longrightarrow>
        (\<exists>j r. d = Warn_release j r) \<or> (\<exists>j. d = Warn_release_no_text j)"
      using e1(4) e2(4) by auto
    ultimately show ?thesis by blast
  qed
qed

text \<open>The three phases together.\<close>

lemma cleanup_events:
  assumes "session_ok s"
  shows "\<exists>e1 e2 e3.
           unmap_sweep be (cuda_pagemap s) s = Inr (s\<lparr>trace := trace s @ e1\<rparr>)
         \<and> do_cuda_kvcache_cleanup be s = Inr (s\<lparr>cuda_pagemap := [], trace := trace s @ e1 @ e2 @ e3\<rparr>)
         \<and> calls_of e1 = concat (map (entry_unmap_calls s) (filter (resolves s) (cuda_pagemap s)))
         \<and> calls_of e2 = concat (map (free_calls s) [0..<length (k_tensors s)])
         \<and> calls_of e3 = release_calls s
         \<and> every_failure_logged e1 \<and> Cerr_failed \<notin> set e1
         \<and> every_failure_logged e2 \<and> Cerr_failed \<notin> set e2
         \<and> (has_texts be \<longrightarrow> every_failure_logged e3 \<and> Cerr_failed \<notin> set e3)
         \<and> (\<forall>d. Stderr d \<in> set e1 \<longrightarrow> d = Warn_unmap)
         \<and> (\<forall>d. Stderr d \<in> set e2 \<longrightarrow> d = Warn_free_k \<or> d = Warn_free_v)
         \<and> (\<forall>d. Stderr d \<in> set e3 \<longrightarrow>
               (\<exists>j r. d = Warn_release j r) \<or> (\<exists>j. d = Warn_release_no_text j))"
proof -
  from assms have wf: "length (k_tensors s) \<le> length (v_tensors s)"
    "length (k_tensors s) \<le> INT_MAX" "length (cuda_pages s) \<le> INT_MAX"
    by (simp_all add: session_ok_def)
  from unmap_sweep_events [OF wf(1,2), of be "cuda_pagemap s"] obtain e1 where
    e1: "unmap_sweep be (cuda_pagemap s) s = Inr (s\<lparr>trace := trace s @ e1\<rparr>)"
      "calls_of e1 = concat (map (entry_unmap_calls s) (filter (resolves s) (cuda_pagemap s)))"
      "every_failure_logged e1" "Cerr_failed \<notin> set e1"
      "\<forall>d. Stderr d \<in> set e1 \<longrightarrow> d = Warn_unmap"
    by blast
  let ?s2 = "s\<lparr>trace := trace s @ e1, cuda_pagemap := []\<rparr>"
  have wf2: "length (k_tensors ?s2) \<le> length (v_tensors ?s2)" "length (k_tensors ?s2) \<le> INT_MAX"
    using wf by simp_all
  from free_loop_events [OF wf2, of be 0] obtain e2 where
    e2: "free_loop be 0 ?s2 = Inr (?s2\<lparr>trace := trace ?s2 @ e2\<rparr>)"
      "calls_of e2 = concat (map (free_calls ?s2) [0..<length (k_tensors ?s2)])"
      "every_failure_logged e2" "Cerr_failed \<notin> set e2"
      "\<forall>d. Stderr d \<in> set e2 \<longrightarrow> d = Warn_free_k \<or> d = Warn_free_v"
    by blast
  let ?s3 = "?s2\<lparr>trace := trace ?s2 @ e2\<rparr>"
  have wf3: "length (cuda_pages ?s3) \<le> INT_MAX"
    using wf by simp
  from release_loop_events [OF wf3, of be 0] obtain e3 where
    e3: "release_loop be 0 ?s3 = Inr (?s3\<lparr>trace := trace ?s3 @ e3\<rparr>)"
      "calls_of e3 = map CuMemRelease (drop 0 (cuda_pages ?s3))"
      "has_texts be \<longrightarrow> every_failure_logged e3 \<and> Cerr_failed \<notin> set e3"
      "\<forall>d. Stderr d \<in> set e3 \<longrightarrow> (\<exists>j r. d = Warn_release j r) \<or> (\<exists>j. d = Warn_release_no_text j)"
    by blast
  have "do_cuda_kvcache_cleanup be s = Inr (s\<lparr>cuda_pagemap := [], trace := trace s @ e1 @ e2 @ e3\<rparr>)"
    using e1(1) e2(1) e3(1) by (simp add: do_cuda_kvcache_cleanup_def Let_def)
  moreover have "calls_of e2 = concat (map (free_calls s) [0..<length (k_tensors s)])"
    using e2(2) by simp
  moreover have "calls_of e3 = release_calls s"
    using e3(2) by (simp add: release_calls_def)
  ultimately show ?thesis
    using e1 e2(3,4,5) e3(3,4) by blast
qed

lemma teardown_history_eq:
  "do_cuda_kvcache_cleanup be s = Inr (s\<lparr>cuda_pagemap := [], trace := trace s @ es\<rparr>) \<Longrightarrow>
   teardown_history be s = es"
  by (simp add: teardown_history_def)

text \<open>
  Claim C6, as it is worded, does not hold: teardown does not attempt to unmap every
  recorded entry. In a session where the key range of layer 0 is null at teardown, the
  entry of layer 0 is in the table, teardown makes no unmap call, and it goes on to
  free the value range of that layer and to release the pages of the entry.
\<close>

theorem cleanup_unmaps_every_entry_counterexample:
  "session_ok session_null_key
   \<and> ((7, 0, 0), (101, 102)) \<in> set (cuda_pagemap session_null_key)
   \<and> calls_of (teardown_history driver_ok session_null_key) =
       [CuMemAddressFree 3221225472 8388608,
        CuMemAddressFree 2147483648 8388608, CuMemAddressFree 4294967296 8388608,
        CuMemRelease 101, CuMemRelease 102]
   \<and> \<not> unmap_attempted (calls_of (teardown_history driver_ok session_null_key))
         session_null_key ((7, 0, 0), (101, 102))"
proof -
  have run: "do_cuda_kvcache_cleanup driver_ok session_null_key =
      Inr (session_null_key\<lparr>cuda_pagemap := [], trace := trace session_null_key @
             [Backend (CuMemAddressFree 3221225472 8388608) (CUDA_SUCCESS, 0),
              Backend (CuMemAddressFree 2147483648 8388608) (CUDA_SUCCESS, 0),
              Backend (CuMemAddressFree 4294967296 8388608) (CUDA_SUCCESS, 0),
              Backend (CuMemRelease 101) (CUDA_SUCCESS, 0),
              Backend (CuMemRelease 102) (CUDA_SUCCESS, 0)]\<rparr>)"
    by (simp add: do_cuda_kvcache_cleanup_def unmap_mapping_def free_loop.simps free_layer_def
          release_loop.simps release_page_def invoke_def say_def Let_def scenario_defs2)
  have ok: "session_ok session_null_key"
    by (simp add: session_ok_def scenario_defs2)
  have tab: "((7, 0, 0), (101, 102)) \<in> set (cuda_pagemap session_null_key)"
    by (simp add: scenario_defs2)
  have calls: "calls_of (teardown_history driver_ok session_null_key) =
       [CuMemAddressFree 3221225472 8388608,
        CuMemAddressFree 2147483648 8388608, CuMemAddressFree 4294967296 8388608,
        CuMemRelease 101, CuMemRelease 102]"
    by (simp add: teardown_history_eq [OF run])
  have "\<not> unmap_attempted (calls_of (teardown_history driver_ok session_null_key))
         session_null_key ((7, 0, 0), (101, 102))"
    unfolding calls by (simp add: unmap_attempted_def)
  with ok tab calls show ?thesis by simp
qed

text \<open>
  Claim C6, amended. Teardown runs its three phases in order. Its history is the old
  history followed by three segments. The first holds, in the order of the table, the
  unmap of the key and of the value sub-range of every recorded entry that resolves,
  and nothing for the other entries; it is all that the sweep over the table does, and
  the table is still intact at its end. The second holds the calls that free the key
  and the value range, where not null, of every layer. The third holds the release of
  every handle of the pool. The messages of a segment are the warnings of its phase.
  The table is empty at the end.
\<close>

theorem cleanup_phases_in_order:
  assumes "session_ok s"
  shows "\<exists>e1 e2 e3.
           unmap_sweep be (cuda_pagemap s) s = Inr (s\<lparr>trace := trace s @ e1\<rparr>)
         \<and> do_cuda_kvcache_cleanup be s = Inr (s\<lparr>cuda_pagemap := [], trace := trace s @ e1 @ e2 @ e3\<rparr>)
         \<and> calls_of e1 = concat (map (entry_unmap_calls s) (filter (resolves s) (cuda_pagemap s)))
         \<and> calls_of e2 = concat (map (free_calls s) [0..<length (k_tensors s)])
         \<and> calls_of e3 = release_calls s
         \<and> (\<forall>d. Stderr d \<in> set e1 \<longrightarrow> d = Warn_unmap)
         \<and> (\<forall>d. Stderr d \<in> set e2 \<longrightarrow> d = Warn_free_k \<or> d = Warn_free_v)
         \<and> (\<forall>d. Stderr d \<in> set e3 \<longrightarrow>
               (\<exists>j r. d = Warn_release j r) \<or> (\<exists>j. d = Warn_release_no_text j))"
  using cleanup_events [OF assms, of be] by blast

theorem cleanup_phases_in_order_witness:
  "session_ok session_stale
   \<and> (\<exists>e1 e2 e3.
         do_cuda_kvcache_cleanup driver_failing session_stale =
           Inr (session_stale\<lparr>cuda_pagemap := [], trace := trace session_stale @ e1 @ e2 @ e3\<rparr>)
       \<and> calls_of e1 = [CuMemUnmap 1073741824 2097152, CuMemUnmap 3221225472 2097152]
       \<and> calls_of e2 = [CuMemAddressFree 1073741824 8388608, CuMemAddressFree 3221225472 8388608,
                         CuMemAddressFree 2147483648 8388608, CuMemAddressFree 4294967296 8388608]
       \<and> calls_of e3 = [CuMemRelease 101, CuMemRelease 102])"
proof -
  have ok: "session_ok session_stale"
    by (simp add: session_ok_def scenario_defs2)
  have c1: "concat (map (entry_unmap_calls session_stale)
                (filter (resolves session_stale) (cuda_pagemap session_stale))) =
              [CuMemUnmap 1073741824 2097152, CuMemUnmap 3221225472 2097152]"
    by (simp add: entry_unmap_calls_def resolves_def scenario_defs2)
  have c2: "concat (map (free_calls session_stale) [0..<length (k_tensors session_stale)]) =
              [CuMemAddressFree 1073741824 8388608, CuMemAddressFree 3221225472 8388608,
               CuMemAddressFree 2147483648 8388608, CuMemAddressFree 4294967296 8388608]"
    by (simp add: free_calls_def scenario_defs2 upt_conv_Cons)
  have c3: "release_calls session_stale = [CuMemRelease 101, CuMemRelease 102]"
    by (simp add: release_calls_def scenario_defs2)
  from cleanup_phases_in_order [OF ok, of driver_failing] show ?thesis
    unfolding c1 c2 c3 using ok by blast
qed


text \<open>
  The warning of a failed release is complete only when the driver has a text for the
  code. With a driver that has none, the first warning stops before the text and the
  stream fails, so that nothing of the second warning is shown.
\<close>

lemma cleanup_release_without_text:
  "teardown_history driver_untexted session_ready =
     [Backend (CuMemAddressFree 1073741824 8388608) (CUDA_SUCCESS, 0),
      Backend (CuMemAddressFree 3221225472 8388608) (CUDA_SUCCESS, 0),
      Backend (CuMemAddressFree 2147483648 8388608) (CUDA_SUCCESS, 0),
      Backend (CuMemAddressFree 4294967296 8388608) (CUDA_SUCCESS, 0),
      Backend (CuMemRelease 101) (12345, 0), Stderr (Warn_release_no_text 0), Cerr_failed,
      Backend (CuMemRelease 102) (12345, 0), Stderr (Warn_release_no_text 1), Cerr_failed]"
  by (simp add: teardown_history_def do_cuda_kvcache_cleanup_def free_loop.simps free_layer_def
        release_loop.simps release_page_def invoke_def say_def Let_def scenario_defs2)



subsection \<open>Entries that teardown passes over\<close>

lemma skipped_trace [simp]: "skipped (s\<lparr>trace := t\<rparr>) = skipped s"
  by (simp add: fun_eq_iff skipped_def split: prod.splits)

lemma unmap_mapping_skipped:
  assumes "length (k_tensors s) \<le> length (v_tensors s)" and "skipped s m"
  shows "unmap_mapping be m s = Inr s"
proof -
  obtain reqId req_offset layer_idx pages where m: "m = ((reqId, req_offset, layer_idx), pages)"
    by (metis prod.exhaust)
  from assms(2) have nn: "0 \<le> sint layer_idx"
    by (auto simp: skipped_def m)
  then have idx: "unat (scast layer_idx :: u64) = nat (sint layer_idx)"
    by (rule layer_index_nonneg)
  from assms nn show ?thesis
    by (auto simp: unmap_mapping_def m Let_def idx skipped_def split: prod.splits)
qed

lemma unmap_sweep_filter:
  assumes "length (k_tensors s) \<le> length (v_tensors s)"
  shows "unmap_sweep be ms s = unmap_sweep be (filter (\<lambda>m. \<not> skipped s m) ms) s"
  using assms
proof (induction ms arbitrary: s)
  case Nil
  show ?case by simp
next
  case (Cons m ms)
  show ?case
  proof (cases "skipped s m")
    case True
    with Cons.prems have "unmap_mapping be m s = Inr s"
      by (intro unmap_mapping_skipped)
    with True Cons.IH [OF Cons.prems] show ?thesis by simp
  next
    case False
    from unmap_mapping_returns [OF Cons.prems, of be m] obtain es where
      es: "unmap_mapping be m s = Inr (s\<lparr>trace := trace s @ es\<rparr>)"
      by blast
    let ?s1 = "s\<lparr>trace := trace s @ es\<rparr>"
    have "length (k_tensors ?s1) \<le> length (v_tensors ?s1)"
      using Cons.prems by simp
    from Cons.IH [OF this] False es show ?thesis by simp
  qed
qed

text \<open>
  Claim C10. In the first phase of teardown an entry whose layer index is not less
  than the number of layer tensors, or whose key or value base address is null, is
  passed over: no driver call, no warning, no change. The sweep over the table is the
  sweep over the table without these entries. Teardown returns with the table empty,
  so these entries are removed with the others.
\<close>

theorem cleanup_skips_unresolved:
  assumes "session_ok s"
  shows "(skipped s m \<longrightarrow> unmap_mapping be m s = Inr s)
       \<and> unmap_sweep be (cuda_pagemap s) s =
           unmap_sweep be (filter (\<lambda>m. \<not> skipped s m) (cuda_pagemap s)) s
       \<and> (\<exists>s'. do_cuda_kvcache_cleanup be s = Inr s' \<and> cuda_pagemap s' = [])"
proof -
  from assms have wf: "length (k_tensors s) \<le> length (v_tensors s)"
    by (simp add: session_ok_def)
  have "skipped s m \<longrightarrow> unmap_mapping be m s = Inr s"
    using unmap_mapping_skipped [OF wf] by blast
  moreover have "unmap_sweep be (cuda_pagemap s) s =
           unmap_sweep be (filter (\<lambda>m. \<not> skipped s m) (cuda_pagemap s)) s"
    using wf by (rule unmap_sweep_filter)
  moreover from cleanup_events [OF assms, of be]
  have "\<exists>s'. do_cuda_kvcache_cleanup be s = Inr s' \<and> cuda_pagemap s' = []"
    by auto
  ultimately show ?thesis by blast
qed

theorem cleanup_skips_unresolved_witness:
  "session_ok session_stale
   \<and> skipped session_stale ((8, 0, 5), (102, 101))
   \<and> unmap_mapping driver_ok ((8, 0, 5), (102, 101)) session_stale = Inr session_stale
   \<and> unmap_sweep driver_ok (cuda_pagemap session_stale) session_stale =
       unmap_sweep driver_ok [((7, 0, 0), (101, 102))] session_stale
   \<and> (\<exists>s'. do_cuda_kvcache_cleanup driver_ok session_stale = Inr s' \<and> cuda_pagemap s' = [])"
proof -
  have ok: "session_ok session_stale"
    by (simp add: session_ok_def scenario_defs2)
  have sk: "skipped session_stale ((8, 0, 5), (102, 101))"
    by (simp add: skipped_def scenario_defs2)
  have nsk: "\<not> skipped session_stale ((7, 0, 0), (101, 102))"
    by (simp add: skipped_def scenario_defs2)
  have tab: "filter (\<lambda>m. \<not> skipped session_stale m) (cuda_pagemap session_stale) = [((7, 0, 0), (101, 102))]"
    using sk nsk by (simp add: session_stale_def)
  from cleanup_skips_unresolved [OF ok, of "((8, 0, 5), (102, 101))" driver_ok] ok sk show ?thesis
    unfolding tab by blast
qed

end
